theory Spec2Isabelle
  imports Complex_Main "HOL-Library.Word"
begin

section \<open>Python values, exceptions and effects\<close>

text \<open>
  The module \<^verbatim>\<open>ducascopy_download.py\<close> has five functions: \<^verbatim>\<open>read_day\<close>,
  \<^verbatim>\<open>bi5_to_df\<close>, \<^verbatim>\<open>normalize_df\<close>, \<^verbatim>\<open>download_period\<close> and \<^verbatim>\<open>download_data\<close>.
  Each is embedded below under its own name. An exception is a value of \<open>py_error\<close>,
  and a function that can raise returns \<open>py_error + 'a\<close> with \<open>Inl\<close> for the exception.
\<close>

datatype py_error =
    ValueError
  | OverflowError
  | ZeroDivisionError
  | UnboundLocalError
  | StructError
  | LZMAError
  | RequestException
  | OtherError string

text \<open>
  What a call does to the outside world is kept as a list of events, oldest first:
  a line written by \<^verbatim>\<open>print\<close>, or the URL handed to \<^verbatim>\<open>requests.get\<close>. The progress bar
  of \<^verbatim>\<open>tqdm\<close> is not part of the trace.
\<close>

datatype event = Printed string | Requested string

type_synonym 'a io = "(py_error + 'a) \<times> event list"

definition io_bind :: "'a io \<Rightarrow> ('a \<Rightarrow> 'b io) \<Rightarrow> 'b io" where
  "io_bind m f =
     (case m of
        (Inl e, t) \<Rightarrow> (Inl e, t)
      | (Inr x, t) \<Rightarrow> (case f x of (r, t') \<Rightarrow> (r, t @ t')))"

definition io_pure :: "py_error + 'a \<Rightarrow> 'a io" where
  "io_pure r = (r, [])"


text \<open>Sequencing of computations that may raise but have no effect.\<close>

definition bind_e :: "py_error + 'a \<Rightarrow> ('a \<Rightarrow> py_error + 'b) \<Rightarrow> py_error + 'b" where
  "bind_e r f = (case r of Inl e \<Rightarrow> Inl e | Inr x \<Rightarrow> f x)"

fun map_e :: "('a \<Rightarrow> py_error + 'b) \<Rightarrow> 'a list \<Rightarrow> py_error + 'b list" where
  "map_e f [] = Inr []"
| "map_e f (x # xs) = bind_e (f x) (\<lambda>y. bind_e (map_e f xs) (\<lambda>ys. Inr (y # ys)))"

type_synonym byte = "8 word"
type_synonym bytes = "byte list"

section \<open>The library calls the module makes\<close>

subsection \<open>Format specifications of f-strings\<close>

definition digit_char :: "nat \<Rightarrow> char" where
  "digit_char n = ''0123456789'' ! n"

fun str_nat :: "nat \<Rightarrow> string" where
  "str_nat n = (if n < 10 then [digit_char n] else str_nat (n div 10) @ [digit_char (n mod 10)])"

declare str_nat.simps [simp del]

definition zfill :: "nat \<Rightarrow> string \<Rightarrow> string" where
  "zfill w s = replicate (w - length s) (CHR ''0'') @ s"

text \<open>\<^verbatim>\<open>f'{i:0wd}'\<close>: decimal, padded with zeros after the sign up to width \<open>w\<close>.\<close>

definition format_0d :: "nat \<Rightarrow> int \<Rightarrow> string" where
  "format_0d w i =
     (if i < 0 then CHR ''-'' # zfill (w - 1) (str_nat (nat (- i)))
      else zfill w (str_nat (nat i)))"

subsection \<open>datetime\<close>

text \<open>
  A \<^verbatim>\<open>datetime\<close> object by its fields. The microsecond field and the time zone are
  left out: \<^verbatim>\<open>strptime\<close> with the format of this module sets neither, and a
  \<^verbatim>\<open>timedelta\<close> of whole days or whole seconds changes neither.
\<close>

record datetime =
  year :: int
  month :: int
  day :: int
  hour :: int
  minute :: int
  second :: int

definition is_leap :: "int \<Rightarrow> bool" where
  "is_leap y = (y mod 4 = 0 \<and> (y mod 100 \<noteq> 0 \<or> y mod 400 = 0))"

definition DAYS_IN_MONTH :: "int list" where
  "DAYS_IN_MONTH = [-1, 31, 28, 31, 30, 31, 30, 31, 31, 30, 31, 30, 31]"

definition DAYS_BEFORE_MONTH :: "int list" where
  "DAYS_BEFORE_MONTH = [-1, 0, 31, 59, 90, 120, 151, 181, 212, 243, 273, 304, 334]"

definition days_before_year :: "int \<Rightarrow> int" where
  "days_before_year yr = (let y = yr - 1 in y * 365 + y div 4 - y div 100 + y div 400)"

definition days_in_month :: "int \<Rightarrow> int \<Rightarrow> int" where
  "days_in_month yr m = (if m = 2 \<and> is_leap yr then 29 else DAYS_IN_MONTH ! nat m)"

definition days_before_month :: "int \<Rightarrow> int \<Rightarrow> int" where
  "days_before_month yr m =
     DAYS_BEFORE_MONTH ! nat m + (if m > 2 \<and> is_leap yr then 1 else 0)"

definition ymd2ord :: "int \<Rightarrow> int \<Rightarrow> int \<Rightarrow> int" where
  "ymd2ord yr m d = days_before_year yr + days_before_month yr m + d"

text \<open>
  \<^verbatim>\<open>_ord2ymd\<close>, the inverse of \<^verbatim>\<open>_ymd2ord\<close>; \<^verbatim>\<open>divmod\<close> is floor division and
  \<^verbatim>\<open>(n + 50) >> 5\<close> is floor division by 32.
\<close>

definition ord2ymd :: "int \<Rightarrow> int \<times> int \<times> int" where
  "ord2ymd n0 =
     (let n = n0 - 1;
          n400 = n div 146097; n = n mod 146097;
          yr = n400 * 400 + 1;
          n100 = n div 36524; n = n mod 36524;
          n4 = n div 1461; n = n mod 1461;
          n1 = n div 365; n = n mod 365;
          yr = yr + (n100 * 100 + n4 * 4 + n1)
      in if n1 = 4 \<or> n100 = 4 then (yr - 1, 12, 31)
         else
           (let leapyear = (n1 = 3 \<and> (n4 \<noteq> 24 \<or> n100 = 3));
                m = (n + 50) div 32;
                preceding = DAYS_BEFORE_MONTH ! nat m + (if m > 2 \<and> leapyear then 1 else 0)
            in if preceding > n then
                 (let m = m - 1;
                      preceding = preceding - (DAYS_IN_MONTH ! nat m + (if m = 2 \<and> leapyear then 1 else 0))
                  in (yr, m, n - preceding + 1))
               else (yr, m, n - preceding + 1)))"

definition MINYEAR :: int where "MINYEAR = 1"
definition MAXYEAR :: int where "MAXYEAR = 9999"
definition MAXORDINAL :: int where "MAXORDINAL = 3652059"

text \<open>The check every \<^verbatim>\<open>date\<close> constructor makes on its fields.\<close>

definition check_date_fields :: "int \<Rightarrow> int \<Rightarrow> int \<Rightarrow> bool" where
  "check_date_fields yr m d =
     (MINYEAR \<le> yr \<and> yr \<le> MAXYEAR \<and> 1 \<le> m \<and> m \<le> 12 \<and> 1 \<le> d \<and> d \<le> days_in_month yr m)"

definition valid_datetime :: "datetime \<Rightarrow> bool" where
  "valid_datetime dt =
     (check_date_fields (year dt) (month dt) (day dt) \<and>
      0 \<le> hour dt \<and> hour dt < 24 \<and> 0 \<le> minute dt \<and> minute dt < 60 \<and>
      0 \<le> second dt \<and> second dt < 60)"

definition toordinal :: "datetime \<Rightarrow> int" where
  "toordinal dt = ymd2ord (year dt) (month dt) (day dt)"

text \<open>
  A \<^verbatim>\<open>timedelta\<close> is kept normalised, \<open>0 \<le> seconds < 86400\<close>, and its constructor
  raises \<^verbatim>\<open>OverflowError\<close> beyond 999999999 days.
\<close>

datatype timedelta = Timedelta (days: int) (seconds: int)

definition new_timedelta :: "int \<Rightarrow> int \<Rightarrow> py_error + timedelta" where
  "new_timedelta d s =
     (let d = d + s div 86400; s = s mod 86400
      in if \<bar>d\<bar> > 999999999 then Inl OverflowError else Inr (Timedelta d s))"

text \<open>\<^verbatim>\<open>datetime.__add__\<close> with a \<^verbatim>\<open>timedelta\<close>.\<close>

definition datetime_add :: "datetime \<Rightarrow> timedelta \<Rightarrow> py_error + datetime" where
  "datetime_add dt other =
     bind_e (new_timedelta (toordinal dt) (hour dt * 3600 + minute dt * 60 + second dt)) (\<lambda>delta.
     bind_e (new_timedelta (days delta + days other) (seconds delta + seconds other)) (\<lambda>delta.
       let hr = seconds delta div 3600; rem = seconds delta mod 3600;
           mn = rem div 60; sc = rem mod 60
       in if 0 < days delta \<and> days delta \<le> MAXORDINAL then
            (case ord2ymd (days delta) of
               (y, m, d) \<Rightarrow>
                 Inr \<lparr>year = y, month = m, day = d, hour = hr, minute = mn, second = sc\<rparr>)
          else Inl OverflowError))"

text \<open>\<^verbatim>\<open>datetime.__sub__\<close> with a \<^verbatim>\<open>datetime\<close>.\<close>

definition datetime_sub :: "datetime \<Rightarrow> datetime \<Rightarrow> py_error + timedelta" where
  "datetime_sub a b =
     (let days1 = toordinal a; days2 = toordinal b;
          secs1 = second a + minute a * 60 + hour a * 3600;
          secs2 = second b + minute b * 60 + hour b * 3600
      in new_timedelta (days1 - days2) (secs1 - secs2))"

subsection \<open>strptime with the format \<^verbatim>\<open>%Y-%m-%d\<close>\<close>

text \<open>
  \<^verbatim>\<open>_strptime\<close> compiles the format into the regular expression
  \<^verbatim>\<open>(?P<Y>\d\d\d\d)-(?P<m>1[0-2]|0[1-9]|[1-9])-(?P<d>3[0-1]|[1-2]\d|0[1-9]|[1-9]| [1-9])\<close>,
  matches it at the start of the string, and raises \<^verbatim>\<open>ValueError\<close> when it does not
  match, when the match stops before the end of the string, or when the three numbers
  fail the check of the \<^verbatim>\<open>date\<close> constructor. A match of the expression is a list
  of candidates, the alternatives in the order the matcher tries them. A string is a
  list of 8-bit characters here, so \<^verbatim>\<open>\d\<close> is an ASCII digit.
\<close>

definition in_range :: "char \<Rightarrow> char \<Rightarrow> char \<Rightarrow> bool" where
  "in_range lo hi c = ((of_char lo :: nat) \<le> of_char c \<and> (of_char c :: nat) \<le> of_char hi)"

definition is_digit :: "char \<Rightarrow> bool" where
  "is_digit c = in_range (CHR ''0'') (CHR ''9'') c"

definition digit_val :: "char \<Rightarrow> int" where
  "digit_val c = int (of_char c) - 48"

text \<open>\<^verbatim>\<open>int(s)\<close> on a string of digits after optional leading blanks.\<close>

definition int_of_str :: "string \<Rightarrow> int" where
  "int_of_str s = foldl (\<lambda>a c. a * 10 + digit_val c) 0 (dropWhile (\<lambda>c. c = CHR '' '') s)"

definition lit :: "char \<Rightarrow> string \<Rightarrow> string list" where
  "lit c s = (case s of x # r \<Rightarrow> if x = c then [r] else [] | [] \<Rightarrow> [])"

definition alt1 :: "(char \<Rightarrow> bool) \<Rightarrow> string \<Rightarrow> (string \<times> string) list" where
  "alt1 p s = (case s of a # r \<Rightarrow> if p a then [([a], r)] else [] | [] \<Rightarrow> [])"

definition alt2 :: "(char \<Rightarrow> bool) \<Rightarrow> (char \<Rightarrow> bool) \<Rightarrow> string \<Rightarrow> (string \<times> string) list" where
  "alt2 p q s = (case s of a # b # r \<Rightarrow> if p a \<and> q b then [([a, b], r)] else [] | _ \<Rightarrow> [])"

definition re_Y :: "string \<Rightarrow> (string \<times> string) list" where
  "re_Y s =
     (case s of
        a # b # c # d # r \<Rightarrow>
          if is_digit a \<and> is_digit b \<and> is_digit c \<and> is_digit d then [([a, b, c, d], r)] else []
      | _ \<Rightarrow> [])"

definition re_m :: "string \<Rightarrow> (string \<times> string) list" where
  "re_m s =
     alt2 (\<lambda>c. c = CHR ''1'') (in_range (CHR ''0'') (CHR ''2'')) s @
     alt2 (\<lambda>c. c = CHR ''0'') (in_range (CHR ''1'') (CHR ''9'')) s @
     alt1 (in_range (CHR ''1'') (CHR ''9'')) s"

definition re_d :: "string \<Rightarrow> (string \<times> string) list" where
  "re_d s =
     alt2 (\<lambda>c. c = CHR ''3'') (in_range (CHR ''0'') (CHR ''1'')) s @
     alt2 (in_range (CHR ''1'') (CHR ''2'')) is_digit s @
     alt2 (\<lambda>c. c = CHR ''0'') (in_range (CHR ''1'') (CHR ''9'')) s @
     alt1 (in_range (CHR ''1'') (CHR ''9'')) s @
     alt2 (\<lambda>c. c = CHR '' '') (in_range (CHR ''1'') (CHR ''9'')) s"

definition format_regex_match :: "string \<Rightarrow> (string \<times> string \<times> string \<times> string) list" where
  "format_regex_match s =
     [(Y, m, d, r5).
        (Y, r1) \<leftarrow> re_Y s, r2 \<leftarrow> lit (CHR ''-'') r1,
        (m, r3) \<leftarrow> re_m r2, r4 \<leftarrow> lit (CHR ''-'') r3,
        (d, r5) \<leftarrow> re_d r4]"

definition strptime :: "string \<Rightarrow> py_error + datetime" where
  "strptime data_string =
     (case format_regex_match data_string of
        [] \<Rightarrow> Inl ValueError
      | (Y, m, d, rest) # _ \<Rightarrow>
          if rest \<noteq> [] then Inl ValueError
          else
            (let yr = int_of_str Y; mo = int_of_str m; dy = int_of_str d
             in if check_date_fields yr mo dy then
                  Inr \<lparr>year = yr, month = mo, day = dy, hour = 0, minute = 0, second = 0\<rparr>
                else Inl ValueError))"

section \<open>read_day\<close>

record response =
  status_code :: int
  content :: bytes

text \<open>
  The network, the LZMA decompressor and the \<^verbatim>\<open>struct\<close> module are outside the
  repository. They are parameters of the model: \<open>requests_get\<close> answers a URL or raises,
  \<open>lzma_decompress\<close> is \<^verbatim>\<open>LZMADecompressor(FORMAT_AUTO).decompress\<close> on a fresh
  decompressor, \<open>struct_calcsize\<close> and \<open>struct_unpack\<close> are the two functions of
  \<^verbatim>\<open>struct\<close>; an unpacked tuple is a list of integers.
\<close>

record env =
  requests_get :: "string \<Rightarrow> py_error + response"
  lzma_decompress :: "bytes \<Rightarrow> py_error + bytes"
  struct_calcsize :: "string \<Rightarrow> py_error + nat"
  struct_unpack :: "string \<Rightarrow> bytes \<Rightarrow> py_error + int list"

definition url_prefix :: string where
  "url_prefix = ''https://datafeed.dukascopy.com/datafeed''"

definition file_name :: string where
  "file_name = ''BID_candles_min_1.bi5''"

definition url :: "string \<Rightarrow> datetime \<Rightarrow> string" where
  "url symbol dt =
     url_prefix @ ''/'' @ symbol @ ''/'' @ format_0d 4 (year dt) @ ''/'' @
     format_0d 2 (month dt - 1) @ ''/'' @ format_0d 2 (day dt) @ ''/'' @ file_name"

text \<open>
  \<^verbatim>\<open>read_day\<close> returns the integer \<open>-1\<close> or a bytes object; \<open>Minus_One\<close> is that
  integer, which no bytes object equals.
\<close>

datatype day_data = Minus_One | Data bytes

text \<open>
  The local \<^verbatim>\<open>decompresseddata\<close> is assigned only inside the \<^verbatim>\<open>try\<close>, under
  \<^verbatim>\<open>if len(rawdata)\<close>. On the two paths that reach \<^verbatim>\<open>return decompresseddata\<close>
  without the assignment Python raises \<^verbatim>\<open>UnboundLocalError\<close>.
\<close>

definition read_day :: "env \<Rightarrow> string \<Rightarrow> datetime \<Rightarrow> day_data io" where
  "read_day E symbol dt =
     (let u = url symbol dt in
      case requests_get E u of
        Inl e \<Rightarrow> (Inl e, [Requested u])
      | Inr res \<Rightarrow>
          if status_code res = 404 then (Inr Minus_One, [Requested u, Printed ''download failed...''])
          else
            (let rawdata = content res in
             if length rawdata \<noteq> 0 then
               (case lzma_decompress E rawdata of
                  Inr decompresseddata \<Rightarrow> (Inr (Data decompresseddata), [Requested u])
                | Inl LZMAError \<Rightarrow>
                    (Inl UnboundLocalError, [Requested u, Printed ''decompress failed. continuing..''])
                | Inl e \<Rightarrow> (Inl e, [Requested u]))
             else (Inl UnboundLocalError, [Requested u])))"

text \<open>\<^verbatim>\<open>str.split\<close> with a one-character separator, to name the segments of a path.\<close>

fun split_on :: "char \<Rightarrow> string \<Rightarrow> string list" where
  "split_on c [] = [[]]"
| "split_on c (x # xs) =
     (if x = c then [] # split_on c xs
      else (case split_on c xs of w # ws \<Rightarrow> (x # w) # ws | [] \<Rightarrow> [[x]]))"

definition month_segment :: "string \<Rightarrow> string" where
  "month_segment u = rev (split_on (CHR ''/'') u) ! 2"

section \<open>bi5_to_df\<close>

text \<open>
  A row of a data frame with the columns \<^verbatim>\<open>time, open, high, low, close, volume\<close>.
  \<^verbatim>\<open>bi5_to_df\<close> fills all six with the integers of an unpacked tuple;
  \<^verbatim>\<open>normalize_df\<close> turns the time into a \<^verbatim>\<open>datetime\<close> and the four prices into
  quotients. The row index of the frame is not modelled.
\<close>

record ('t, 'p) frame_row =
  time_col :: 't
  open_col :: 'p
  high_col :: 'p
  low_col :: 'p
  close_col :: 'p
  volume_col :: int

type_synonym raw_row = "(int, int) frame_row"
type_synonym price_row = "(datetime, rat) frame_row"

definition row_of_tuple :: "int list \<Rightarrow> raw_row" where
  "row_of_tuple t =
     \<lparr>time_col = t ! 0, open_col = t ! 1, high_col = t ! 2, low_col = t ! 3,
      close_col = t ! 4, volume_col = t ! 5\<rparr>"

text \<open>
  \<^verbatim>\<open>pd.DataFrame(data_list, columns=[...])\<close> with six column names raises
  \<^verbatim>\<open>ValueError\<close> when the tuples do not have six fields. All tuples of one call
  come from the same format, so they have the same number of fields.
\<close>

definition DataFrame :: "int list list \<Rightarrow> py_error + raw_row list" where
  "DataFrame data_list =
     (if list_all (\<lambda>t. length t = 6) data_list then Inr (map row_of_tuple data_list)
      else Inl ValueError)"

text \<open>The slice \<^verbatim>\<open>raw_data[left:right]\<close> for \<open>left \<le> right\<close>.\<close>

definition slice :: "'a list \<Rightarrow> nat \<Rightarrow> nat \<Rightarrow> 'a list" where
  "slice xs left right = take (right - left) (drop left xs)"

fun unpack_loop :: "env \<Rightarrow> string \<Rightarrow> bytes \<Rightarrow> nat \<Rightarrow> nat list \<Rightarrow> int list list \<Rightarrow> py_error + int list list" where
  "unpack_loop E fmt raw_data chunk_size [] data_list = Inr data_list"
| "unpack_loop E fmt raw_data chunk_size (step # steps) data_list =
     (let left = chunk_size * step; right = chunk_size * step + chunk_size
      in bind_e (struct_unpack E fmt (slice raw_data left right)) (\<lambda>t.
           unpack_loop E fmt raw_data chunk_size steps (data_list @ [t])))"

definition bi5_to_df :: "env \<Rightarrow> bytes \<Rightarrow> string \<Rightarrow> py_error + raw_row list" where
  "bi5_to_df E raw_data fmt =
     bind_e (struct_calcsize E fmt) (\<lambda>chunk_size.
       if chunk_size = 0 then Inl ZeroDivisionError
       else
         (let chunk_count = length raw_data div chunk_size
          in bind_e (unpack_loop E fmt raw_data chunk_size [0..<chunk_count] []) DataFrame))"

section \<open>normalize_df\<close>

text \<open>
  The first assignment maps the whole time column, in row order, before the prices are
  touched; \<^verbatim>\<open>/1000\<close> is true division, whose floating-point result is modelled by
  the exact quotient.
\<close>

definition normalize_df :: "raw_row list \<Rightarrow> datetime \<Rightarrow> py_error + price_row list" where
  "normalize_df df dt =
     bind_e (map_e (\<lambda>x. bind_e (new_timedelta 0 x) (datetime_add dt)) (map time_col df)) (\<lambda>times.
       Inr (map (\<lambda>(t, r).
              \<lparr>time_col = t,
               open_col = of_int (open_col r) / 1000,
               high_col = of_int (high_col r) / 1000,
               low_col = of_int (low_col r) / 1000,
               close_col = of_int (close_col r) / 1000,
               volume_col = volume_col r\<rparr>) (zip times df)))"

section \<open>download_period\<close>

text \<open>One pass of the loop body, for the day number \<open>d\<close> and the table so far.\<close>

definition period_step :: "env \<Rightarrow> string \<Rightarrow> string \<Rightarrow> datetime \<Rightarrow> nat \<Rightarrow> price_row list \<Rightarrow> price_row list io" where
  "period_step E symbol fmt start_day d dataset =
     io_bind (io_pure (bind_e (new_timedelta (int d) 0) (datetime_add start_day))) (\<lambda>current_day.
     io_bind (read_day E symbol current_day) (\<lambda>raw_day.
       case raw_day of
         Minus_One \<Rightarrow> (Inr dataset, [])
       | Data raw \<Rightarrow>
           io_bind (io_pure (bi5_to_df E raw fmt)) (\<lambda>df.
           io_bind (io_pure (normalize_df df current_day)) (\<lambda>df.
             (Inr (dataset @ df), [])))))"

fun period_loop :: "env \<Rightarrow> string \<Rightarrow> string \<Rightarrow> datetime \<Rightarrow> nat list \<Rightarrow> price_row list \<Rightarrow> price_row list io" where
  "period_loop E symbol fmt start_day [] dataset = (Inr dataset, [])"
| "period_loop E symbol fmt start_day (d # ds) dataset =
     io_bind (period_step E symbol fmt start_day d dataset)
       (period_loop E symbol fmt start_day ds)"

definition download_period :: "env \<Rightarrow> string \<Rightarrow> string \<Rightarrow> string \<Rightarrow> string \<Rightarrow> price_row list io" where
  "download_period E symbol start_day end_day fmt =
     io_bind (io_pure (strptime start_day)) (\<lambda>start_day.
     io_bind (io_pure (strptime end_day)) (\<lambda>end_day.
     io_bind (io_pure (datetime_sub end_day start_day)) (\<lambda>delta.
       let period = days delta
       in period_loop E symbol fmt start_day [0..<nat period] [])))"

section \<open>download_data\<close>







section \<open>Notions used to state the properties\<close>

text \<open>
  The seconds between the start of day 0 of the proleptic calendar and a
  \<^verbatim>\<open>datetime\<close>, and the \<^verbatim>\<open>datetime\<close> of such a number of seconds.
\<close>

definition timestamp :: "datetime \<Rightarrow> int" where
  "timestamp dt = toordinal dt * 86400 + (hour dt * 3600 + minute dt * 60 + second dt)"

definition datetime_of_timestamp :: "int \<Rightarrow> datetime" where
  "datetime_of_timestamp ts =
     (case ord2ymd (ts div 86400) of
        (y, m, d) \<Rightarrow>
          \<lparr>year = y, month = m, day = d, hour = ts mod 86400 div 3600,
           minute = ts mod 86400 mod 3600 div 60, second = ts mod 86400 mod 3600 mod 60\<rparr>)"

text \<open>The timestamps of the days 0001-01-01 to 9999-12-31, which a \<^verbatim>\<open>datetime\<close> can hold.\<close>

definition in_datetime_range :: "int \<Rightarrow> bool" where
  "in_datetime_range ts = (86400 \<le> ts \<and> ts < (MAXORDINAL + 1) * 86400)"

text \<open>Midnight of the day with a given ordinal: \<^verbatim>\<open>date.fromordinal\<close> with a zero time.\<close>

definition day_of_ordinal :: "int \<Rightarrow> datetime" where
  "day_of_ordinal n = datetime_of_timestamp (n * 86400)"

text \<open>The rows one day contributes to the table of a period: none when it is not found.\<close>

definition day_rows :: "env \<Rightarrow> string \<Rightarrow> string \<Rightarrow> datetime \<Rightarrow> price_row list io" where
  "day_rows E symbol fmt current_day =
     io_bind (read_day E symbol current_day) (\<lambda>raw_day.
       case raw_day of
         Minus_One \<Rightarrow> (Inr [], [])
       | Data raw \<Rightarrow>
           io_bind (io_pure (bi5_to_df E raw fmt)) (\<lambda>df. io_pure (normalize_df df current_day)))"

text \<open>
  Running computations one after the other and concatenating their results; the first
  exception ends the run.
\<close>

fun io_concat :: "'a list io list \<Rightarrow> 'a list io" where
  "io_concat [] = (Inr [], [])"
| "io_concat (m # ms) = io_bind m (\<lambda>xs. io_bind (io_concat ms) (\<lambda>ys. (Inr (xs @ ys), [])))"

text \<open>A row with the time \<open>t\<close> and the four prices of \<open>r\<close> divided by 1000.\<close>

definition scaled :: "datetime \<Rightarrow> raw_row \<Rightarrow> price_row" where
  "scaled t r =
     \<lparr>time_col = t,
      open_col = of_int (open_col r) / 1000,
      high_col = of_int (high_col r) / 1000,
      low_col = of_int (low_col r) / 1000,
      close_col = of_int (close_col r) / 1000,
      volume_col = volume_col r\<rparr>"


text \<open>
  A day's records are time-ordered when their offsets ascend and lie within the day.
  \<open>day_file_ordered\<close> says so of the records that the day with ordinal \<open>n\<close> decodes
  to, when it is found and decodes.
\<close>

definition time_ordered :: "raw_row list \<Rightarrow> bool" where
  "time_ordered df =
     (sorted (map time_col df) \<and> list_all (\<lambda>r. 0 \<le> time_col r \<and> time_col r < 86400) df)"

definition day_file_ordered :: "env \<Rightarrow> string \<Rightarrow> string \<Rightarrow> int \<Rightarrow> bool" where
  "day_file_ordered E symbol fmt n =
     (case fst (read_day E symbol (day_of_ordinal n)) of
        Inr (Data raw) \<Rightarrow>
          (case bi5_to_df E raw fmt of Inr df \<Rightarrow> time_ordered df | Inl e \<Rightarrow> True)
      | _ \<Rightarrow> True)"

text \<open>The strict form \<^verbatim>\<open>YYYY-MM-DD\<close>: ten characters, digits around two hyphens.\<close>

definition strict_ymd :: "string \<Rightarrow> bool" where
  "strict_ymd s =
     (case s of
        [y1, y2, y3, y4, h1, m1, m2, h2, d1, d2] \<Rightarrow>
          is_digit y1 \<and> is_digit y2 \<and> is_digit y3 \<and> is_digit y4 \<and> h1 = CHR ''-'' \<and>
          is_digit m1 \<and> is_digit m2 \<and> h2 = CHR ''-'' \<and> is_digit d1 \<and> is_digit d2
      | _ \<Rightarrow> False)"

text \<open>
  The texts that the month and day groups of the regular expression of \<^verbatim>\<open>strptime\<close>
  accept: a month is 1 to 9, 01 to 09 or 10 to 12; a day is 1 to 9, 01 to 09, 10 to 29,
  30, 31, or a blank followed by 1 to 9. \<open>loose_ymd\<close> splits a string at its hyphens
  into a four-digit year, such a month and such a day.
\<close>

definition month_text :: "string \<Rightarrow> bool" where
  "month_text M =
     (case M of
        [a] \<Rightarrow> in_range (CHR ''1'') (CHR ''9'') a
      | [a, b] \<Rightarrow>
          a = CHR ''1'' \<and> in_range (CHR ''0'') (CHR ''2'') b \<or>
          a = CHR ''0'' \<and> in_range (CHR ''1'') (CHR ''9'') b
      | _ \<Rightarrow> False)"

definition day_text :: "string \<Rightarrow> bool" where
  "day_text D =
     (case D of
        [a] \<Rightarrow> in_range (CHR ''1'') (CHR ''9'') a
      | [a, b] \<Rightarrow>
          a = CHR ''3'' \<and> in_range (CHR ''0'') (CHR ''1'') b \<or>
          in_range (CHR ''1'') (CHR ''2'') a \<and> is_digit b \<or>
          a = CHR ''0'' \<and> in_range (CHR ''1'') (CHR ''9'') b \<or>
          a = CHR '' '' \<and> in_range (CHR ''1'') (CHR ''9'') b
      | _ \<Rightarrow> False)"

definition loose_ymd :: "string \<Rightarrow> (string \<times> string \<times> string) option" where
  "loose_ymd s =
     (case split_on (CHR ''-'') s of
        [Y, M, D] \<Rightarrow>
          if length Y = 4 \<and> list_all is_digit Y \<and> month_text M \<and> day_text D
          then Some (Y, M, D) else None
      | _ \<Rightarrow> None)"

section \<open>A concrete environment\<close>

text \<open>
  An instance of the parameters, to run the model on concrete inputs. Its \<^verbatim>\<open>struct\<close>
  is the fragment of the module with an explicit byte order (\<^verbatim>\<open>>\<close>, \<^verbatim>\<open>!\<close> or
  \<^verbatim>\<open><\<close>, so standard sizes and no padding) and integer codes without repeat
  counts. Its server answers by the day of the month: day 1 has a body that
  decompresses to two candles, day 3 has an empty body, day 4 a body that is not an
  LZMA stream, and every other day is not found.
\<close>

definition code_size :: "char \<Rightarrow> nat" where
  "code_size c =
     (if c \<in> set ''bB'' then 1 else if c \<in> set ''hH'' then 2
      else if c \<in> set ''iIlL'' then 4 else if c \<in> set ''qQ'' then 8 else 0)"

definition std_codes :: "string \<Rightarrow> string option" where
  "std_codes fmt =
     (case fmt of
        [] \<Rightarrow> None
      | bo # cs \<Rightarrow>
          if bo \<in> set ''><!'' \<and> list_all (\<lambda>c. c \<in> set ''bBhHiIlLqQ'') cs then Some cs else None)"

definition std_calcsize :: "string \<Rightarrow> py_error + nat" where
  "std_calcsize fmt =
     (case std_codes fmt of None \<Rightarrow> Inl StructError | Some cs \<Rightarrow> Inr (sum_list (map code_size cs)))"

definition field_value :: "bool \<Rightarrow> char \<Rightarrow> bytes \<Rightarrow> int" where
  "field_value little c bs =
     (let v = foldl (\<lambda>a b. a * 256 + uint b) 0 (if little then rev bs else bs)
      in if c \<in> set ''bhilq'' \<and> v \<ge> 2 ^ (8 * length bs - 1) then v - 2 ^ (8 * length bs) else v)"

fun decode_fields :: "bool \<Rightarrow> string \<Rightarrow> bytes \<Rightarrow> int list" where
  "decode_fields little [] bs = []"
| "decode_fields little (c # cs) bs =
     field_value little c (take (code_size c) bs) # decode_fields little cs (drop (code_size c) bs)"

definition std_unpack :: "string \<Rightarrow> bytes \<Rightarrow> py_error + int list" where
  "std_unpack fmt bs =
     (case std_codes fmt of
        None \<Rightarrow> Inl StructError
      | Some cs \<Rightarrow>
          if length bs \<noteq> sum_list (map code_size cs) then Inl StructError
          else Inr (decode_fields (take 1 fmt = ''<'') cs bs))"

definition demo_candles :: bytes where
  "demo_candles =
     [0, 0, 0, 60,   0, 1, 226, 64,   0, 1, 226, 108,   0, 1, 226, 8,   0, 1, 226, 58,   0, 0, 0, 7,
      0, 0, 0, 120,  0, 1, 226, 58,   0, 1, 226, 80,    0, 1, 226, 50,  0, 1, 226, 70,   0, 0, 0, 9]"

definition demo_get :: "string \<Rightarrow> py_error + response" where
  "demo_get u =
     (let dd = rev (split_on (CHR ''/'') u) ! 1
      in if dd = ''01'' then Inr \<lparr>status_code = 200, content = [93, 0]\<rparr>
         else if dd = ''03'' then Inr \<lparr>status_code = 200, content = []\<rparr>
         else if dd = ''04'' then Inr \<lparr>status_code = 200, content = [255]\<rparr>
         else Inr \<lparr>status_code = 404, content = []\<rparr>)"

definition demo_lzma :: "bytes \<Rightarrow> py_error + bytes" where
  "demo_lzma b = (if b = [93, 0] then Inr demo_candles else Inl LZMAError)"

definition demo_env :: env where
  "demo_env =
     \<lparr>requests_get = demo_get, lzma_decompress = demo_lzma,
      struct_calcsize = std_calcsize, struct_unpack = std_unpack\<rparr>"

text \<open>The same server with the two candles of day 1 in the other order: offset 120, then 60.\<close>

definition unordered_env :: env where
  "unordered_env =
     \<lparr>requests_get = demo_get,
      lzma_decompress = (\<lambda>b. if b = [93, 0] then Inr (drop 24 demo_candles @ take 24 demo_candles)
                               else Inl LZMAError),
      struct_calcsize = std_calcsize, struct_unpack = std_unpack\<rparr>"

definition demo_day :: "int \<Rightarrow> datetime" where
  "demo_day d = \<lparr>year = 2024, month = 1, day = d, hour = 0, minute = 0, second = 0\<rparr>"

definition demo_raw_row :: raw_row where
  "demo_raw_row =
     \<lparr>time_col = 3661, open_col = 123456, high_col = 123500, low_col = 123400,
      close_col = 123450, volume_col = 7\<rparr>"

definition demo_row :: price_row where
  "demo_row =
     \<lparr>time_col = \<lparr>year = 2024, month = 1, day = 1, hour = 1, minute = 1, second = 1\<rparr>,
      open_col = 123.456, high_col = 123.5, low_col = 123.4, close_col = 123.45,
      volume_col = 7\<rparr>"

text \<open>
  The two candles of day 1 as rows of the table of a period: one and two minutes after
  midnight of 2024-01-01.
\<close>

definition demo_period_rows :: "price_row list" where
  "demo_period_rows =
     [\<lparr>time_col = \<lparr>year = 2024, month = 1, day = 1, hour = 0, minute = 1, second = 0\<rparr>,
       open_col = 123.456, high_col = 123.5, low_col = 123.4, close_col = 123.45,
       volume_col = 7\<rparr>,
      \<lparr>time_col = \<lparr>year = 2024, month = 1, day = 1, hour = 0, minute = 2, second = 0\<rparr>,
       open_col = 123.45, high_col = 123.472, low_col = 123.442, close_col = 123.462,
       volume_col = 9\<rparr>]"

section \<open>The path that read_day requests\<close>

lemma split_on_nonempty: "split_on c xs \<noteq> []"
  by (induction xs) (auto split: list.splits)

lemma split_on_append: "split_on c (a @ c # b) = split_on c a @ split_on c b"
  by (induction a) (auto split: list.splits simp: split_on_nonempty)

lemma split_on_free: "c \<notin> set a \<Longrightarrow> split_on c a = [a]"
  by (induction a) auto

lemma digit_char_not_slash:
  assumes "n < 10"
  shows "digit_char n \<noteq> CHR ''/''"
proof -
  from assms have "n \<in> {0, 1, 2, 3, 4, 5, 6, 7, 8, 9}" by auto
  then show ?thesis by (auto simp: digit_char_def)
qed

lemma str_nat_no_slash: "CHR ''/'' \<notin> set (str_nat n)"
proof (induction n rule: str_nat.induct)
  case (1 n)
  show ?case
  proof (cases "n < 10")
    case True
    then show ?thesis
      using digit_char_not_slash [of n] by (subst str_nat.simps) auto
  next
    case False
    have "digit_char (n mod 10) \<noteq> CHR ''/''"
      by (rule digit_char_not_slash) simp
    with False 1 show ?thesis by (subst str_nat.simps) auto
  qed
qed

lemma format_0d_no_slash: "CHR ''/'' \<notin> set (format_0d w i)"
  by (auto simp: format_0d_def zfill_def str_nat_no_slash)

lemma file_name_no_slash: "CHR ''/'' \<notin> set file_name"
  by (simp add: file_name_def)

lemma str_nat_small: "n < 10 \<Longrightarrow> str_nat n = [digit_char n]"
  by (subst str_nat.simps) simp

lemma zfill_two:
  assumes "n < 100"
  shows "zfill 2 (str_nat n) = [digit_char (n div 10), digit_char (n mod 10)]"
proof (cases "n < 10")
  case True
  then show ?thesis by (simp add: str_nat_small zfill_def digit_char_def)
next
  case False
  from assms have "n div 10 < 10" by simp
  then have "str_nat (n div 10) = [digit_char (n div 10)]" by (rule str_nat_small)
  with False show ?thesis by (subst str_nat.simps) (simp add: zfill_def)
qed

lemma split_on_url:
  "split_on (CHR ''/'') (url symbol dt) =
     split_on (CHR ''/'') (url_prefix @ ''/'' @ symbol @ ''/'' @ format_0d 4 (year dt)) @
     [format_0d 2 (month dt - 1), format_0d 2 (day dt), file_name]"
proof -
  have "url symbol dt =
      (url_prefix @ ''/'' @ symbol @ ''/'' @ format_0d 4 (year dt)) @ CHR ''/'' #
      (format_0d 2 (month dt - 1) @ CHR ''/'' # (format_0d 2 (day dt) @ CHR ''/'' # file_name))"
    by (simp add: url_def)
  then show ?thesis
    by (simp only: split_on_append split_on_free [OF format_0d_no_slash]
        split_on_free [OF file_name_no_slash]) simp
qed

lemma month_segment_url: "month_segment (url symbol dt) = format_0d 2 (month dt - 1)"
  by (simp add: month_segment_def split_on_url)

lemma read_day_requests_url:
  "take 1 (snd (read_day E symbol dt)) = [Requested (url symbol dt)]"
  by (auto simp: read_day_def Let_def split: sum.splits py_error.splits)

text \<open>
  C1. For every symbol and every calendar day, \<^verbatim>\<open>read_day\<close> first requests the URL
  of that day, and the month segment of that URL, the third segment from the end, is
  the two-digit decimal of the calendar month minus one: tens digit, then units digit.
\<close>

theorem read_day_month_segment:
  assumes "valid_datetime dt"
  shows "take 1 (snd (read_day E symbol dt)) = [Requested (url symbol dt)] \<and>
         month_segment (url symbol dt) =
           [digit_char (nat (month dt - 1) div 10), digit_char (nat (month dt - 1) mod 10)]"
proof -
  from assms have "1 \<le> month dt" "month dt \<le> 12"
    by (simp_all add: valid_datetime_def check_date_fields_def)
  then have "format_0d 2 (month dt - 1) =
      [digit_char (nat (month dt - 1) div 10), digit_char (nat (month dt - 1) mod 10)]"
    by (simp add: format_0d_def zfill_two)
  then have "month_segment (url symbol dt) =
      [digit_char (nat (month dt - 1) div 10), digit_char (nat (month dt - 1) mod 10)]"
    by (simp add: month_segment_url)
  with read_day_requests_url [of E symbol dt] show ?thesis by (rule conjI)
qed

text \<open>For the symbol EURUSD and the day 2024-03-15 the month segment is 02.\<close>

theorem read_day_month_segment_witness:
  "valid_datetime \<lparr>year = 2024, month = 3, day = 15, hour = 0, minute = 0, second = 0\<rparr> \<and>
   take 1 (snd (read_day demo_env ''EURUSD''
     \<lparr>year = 2024, month = 3, day = 15, hour = 0, minute = 0, second = 0\<rparr>)) =
     [Requested ''https://datafeed.dukascopy.com/datafeed/EURUSD/2024/02/15/BID_candles_min_1.bi5''] \<and>
   month_segment (url ''EURUSD''
     \<lparr>year = 2024, month = 3, day = 15, hour = 0, minute = 0, second = 0\<rparr>) = ''02''"
proof -
  let ?d = "\<lparr>year = 2024, month = 3, day = 15, hour = 0, minute = 0, second = 0\<rparr>"
  have v: "valid_datetime ?d"
    by (simp add: valid_datetime_def check_date_fields_def MINYEAR_def MAXYEAR_def
        days_in_month_def DAYS_IN_MONTH_def)
  have u: "url ''EURUSD'' ?d =
      ''https://datafeed.dukascopy.com/datafeed/EURUSD/2024/02/15/BID_candles_min_1.bi5''"
    by code_simp
  from read_day_month_segment [OF v, of demo_env "''EURUSD''"] v u show ?thesis
    by (simp add: digit_char_def)
qed

section \<open>Sequencing\<close>

lemma bind_e_Inr: "bind_e (Inr x) f = f x"
  by (simp add: bind_e_def)

lemma bind_e_Inl: "bind_e (Inl e) f = Inl e"
  by (simp add: bind_e_def)

lemma io_bind_Inr: "io_bind (Inr x, t) f = (fst (f x), t @ snd (f x))"
  by (simp add: io_bind_def split: prod.splits)

lemma io_bind_Inl: "io_bind (Inl e, t) f = (Inl e, t)"
  by (simp add: io_bind_def)

lemma io_bind_pure_Inr: "io_bind (io_pure (Inr x)) f = f x"
  by (simp add: io_bind_def io_pure_def split: prod.splits)

lemma io_bind_pure_Inl: "io_bind (io_pure (Inl e)) f = (Inl e, [])"
  by (simp add: io_bind_def io_pure_def)

lemma io_bind_assoc: "io_bind (io_bind m f) g = io_bind m (\<lambda>x. io_bind (f x) g)"
  by (auto simp: io_bind_def split: prod.splits sum.splits)

lemma io_bind_unit: "io_bind m (\<lambda>x. (Inr x, [])) = m"
  by (auto simp: io_bind_def split: prod.splits sum.splits)

lemma io_bind_pure_pure: "io_bind (io_pure r) (\<lambda>x. io_pure (f x)) = io_pure (bind_e r f)"
  by (cases r) (simp_all add: io_bind_def io_pure_def bind_e_def)

section \<open>The concrete environment on the days of January 2024\<close>

lemma demo_get_day:
  "demo_get (url symbol (demo_day d)) =
     (let dd = format_0d 2 d
      in if dd = ''01'' then Inr \<lparr>status_code = 200, content = [93, 0]\<rparr>
         else if dd = ''03'' then Inr \<lparr>status_code = 200, content = []\<rparr>
         else if dd = ''04'' then Inr \<lparr>status_code = 200, content = [255]\<rparr>
         else Inr \<lparr>status_code = 404, content = []\<rparr>)"
  by (simp add: demo_get_def split_on_url demo_day_def)

lemma format_0d_2_small: "format_0d 2 1 = ''01''" "format_0d 2 2 = ''02''" "format_0d 2 3 = ''03''" "format_0d 2 4 = ''04''"
  by code_simp+

lemma demo_next_day:
  "bind_e (new_timedelta (int 1) 0) (datetime_add (demo_day 1)) = Inr (demo_day 2)"
  by code_simp

section \<open>The two paths of read_day that leave its result unassigned\<close>

text \<open>
  C8. The claim is that \<^verbatim>\<open>read_day\<close> returns a defined value when the response is
  not a 404 and its body is empty, and when decompression fails. It does not: on an
  empty body nothing is decompressed and \<^verbatim>\<open>return decompresseddata\<close> raises
  \<^verbatim>\<open>UnboundLocalError\<close>; on \<^verbatim>\<open>LZMAError\<close> the diagnostic is printed and the same
  \<^verbatim>\<open>return\<close> raises \<^verbatim>\<open>UnboundLocalError\<close>.
\<close>

theorem read_day_unbound:
  assumes "requests_get E (url symbol dt) = Inr res" and "status_code res \<noteq> 404"
  shows "(content res = [] \<longrightarrow>
            read_day E symbol dt = (Inl UnboundLocalError, [Requested (url symbol dt)])) \<and>
         (content res \<noteq> [] \<and> lzma_decompress E (content res) = Inl LZMAError \<longrightarrow>
            read_day E symbol dt =
              (Inl UnboundLocalError,
               [Requested (url symbol dt), Printed ''decompress failed. continuing..'']))"
  using assms by (simp add: read_day_def)

text \<open>Day 3 of the concrete server has an empty body, day 4 a body that is no LZMA stream.\<close>

theorem read_day_unbound_witness:
  "read_day demo_env ''EURUSD'' (demo_day 3) =
     (Inl UnboundLocalError, [Requested (url ''EURUSD'' (demo_day 3))]) \<and>
   read_day demo_env ''EURUSD'' (demo_day 4) =
     (Inl UnboundLocalError,
      [Requested (url ''EURUSD'' (demo_day 4)), Printed ''decompress failed. continuing..''])"
proof -
  have g3: "requests_get demo_env (url ''EURUSD'' (demo_day 3)) = Inr \<lparr>status_code = 200, content = []\<rparr>"
    by (simp add: demo_env_def demo_get_day format_0d_2_small)
  have g4: "requests_get demo_env (url ''EURUSD'' (demo_day 4)) = Inr \<lparr>status_code = 200, content = [255]\<rparr>"
    by (simp add: demo_env_def demo_get_day format_0d_2_small)
  have l: "lzma_decompress demo_env [255] = Inl LZMAError"
    by (simp add: demo_env_def demo_lzma_def)
  from read_day_unbound [OF g3] read_day_unbound [OF g4] l show ?thesis by simp
qed

section \<open>A day that is not found\<close>

lemma read_day_not_found:
  assumes "requests_get E (url symbol dt) = Inr res" and "status_code res = 404"
  shows "read_day E symbol dt =
           (Inr Minus_One, [Requested (url symbol dt), Printed ''download failed...''])"
  using assms by (simp add: read_day_def)

text \<open>
  C3. When the server answers 404 for the day of loop index \<open>d\<close>, \<^verbatim>\<open>read_day\<close>
  prints its diagnostic and returns \<open>-1\<close>, the loop body leaves the table as it was,
  and the loop goes on with the remaining days: the outcome is that of the remaining
  days on the same table, after the two events of the day that was not found.
\<close>

theorem not_found_day_skipped:
  assumes "bind_e (new_timedelta (int d) 0) (datetime_add start_day) = Inr current_day"
    and "requests_get E (url symbol current_day) = Inr res"
    and "status_code res = 404"
  shows "read_day E symbol current_day =
           (Inr Minus_One, [Requested (url symbol current_day), Printed ''download failed...'']) \<and>
         period_step E symbol fmt start_day d dataset =
           (Inr dataset, [Requested (url symbol current_day), Printed ''download failed...'']) \<and>
         period_loop E symbol fmt start_day (d # ds) dataset =
           (fst (period_loop E symbol fmt start_day ds dataset),
            [Requested (url symbol current_day), Printed ''download failed...''] @
            snd (period_loop E symbol fmt start_day ds dataset))"
proof -
  note rd = read_day_not_found [OF assms(2,3)]
  have st: "period_step E symbol fmt start_day d dataset =
           (Inr dataset, [Requested (url symbol current_day), Printed ''download failed...''])"
    by (simp add: period_step_def assms(1) io_bind_pure_Inr rd io_bind_Inr)
  show ?thesis by (simp add: rd st io_bind_Inr)
qed

text \<open>
  On the concrete server the second of January is not found: the loop over the indices
  1 and 0 from the first of January skips it and goes on with index 0.
\<close>

theorem not_found_day_skipped_witness:
  "bind_e (new_timedelta (int 1) 0) (datetime_add (demo_day 1)) = Inr (demo_day 2) \<and>
   requests_get demo_env (url ''EURUSD'' (demo_day 2)) = Inr \<lparr>status_code = 404, content = []\<rparr> \<and>
   period_step demo_env ''EURUSD'' ''>IIIIII'' (demo_day 1) 1 [] =
     (Inr [], [Requested (url ''EURUSD'' (demo_day 2)), Printed ''download failed...'']) \<and>
   period_loop demo_env ''EURUSD'' ''>IIIIII'' (demo_day 1) [1, 0] [] =
     (fst (period_loop demo_env ''EURUSD'' ''>IIIIII'' (demo_day 1) [0] []),
      [Requested (url ''EURUSD'' (demo_day 2)), Printed ''download failed...''] @
      snd (period_loop demo_env ''EURUSD'' ''>IIIIII'' (demo_day 1) [0] []))"
proof -
  have g: "requests_get demo_env (url ''EURUSD'' (demo_day 2)) = Inr \<lparr>status_code = 404, content = []\<rparr>"
    by (simp add: demo_env_def demo_get_day format_0d_2_small)
  have s: "status_code \<lparr>status_code = 404, content = []\<rparr> = 404" by simp
  note t = not_found_day_skipped [OF demo_next_day g s, of "''>IIIIII''" "[]" "[0]"]
  from t have a: "period_step demo_env ''EURUSD'' ''>IIIIII'' (demo_day 1) 1 [] =
     (Inr [], [Requested (url ''EURUSD'' (demo_day 2)), Printed ''download failed...''])"
    by (rule conjunct1 [OF conjunct2])
  from t have b: "period_loop demo_env ''EURUSD'' ''>IIIIII'' (demo_day 1) [1, 0] [] =
     (fst (period_loop demo_env ''EURUSD'' ''>IIIIII'' (demo_day 1) [0] []),
      [Requested (url ''EURUSD'' (demo_day 2)), Printed ''download failed...''] @
      snd (period_loop demo_env ''EURUSD'' ''>IIIIII'' (demo_day 1) [0] []))"
    by (rule conjunct2 [OF conjunct2])
  from demo_next_day g a b show ?thesis by (intro conjI)
qed

section \<open>The chunks of bi5_to_df\<close>

lemma unpack_loop_ok:
  assumes "\<And>step. step \<in> set steps \<Longrightarrow>
     struct_unpack E fmt (slice raw (c * step) (c * step + c)) = Inr (f step)"
  shows "unpack_loop E fmt raw c steps acc = Inr (acc @ map f steps)"
  using assms
proof (induction steps arbitrary: acc)
  case Nil
  then show ?case by simp
next
  case (Cons s steps)
  then show ?case by (simp add: Let_def bind_e_Inr)
qed

lemma slice_length:
  assumes "step < length raw div c"
  shows "length (slice raw (c * step) (c * step + c)) = c"
proof -
  from assms have "Suc step \<le> length raw div c" by simp
  then have "c * Suc step \<le> c * (length raw div c)" by (rule mult_le_mono2)
  also have "\<dots> \<le> length raw" by simp
  finally have "c * step + c \<le> length raw" by simp
  then show ?thesis by (simp add: slice_def)
qed

lemma slice_take:
  assumes "right \<le> n"
  shows "slice (take n xs) left right = slice xs left right"
proof -
  have "take (right - left) (drop left (take n xs)) = take (right - left) (take (n - left) (drop left xs))"
    by (simp add: drop_take)
  also have "\<dots> = take (right - left) (drop left xs)"
    using assms by (simp add: min_def)
  finally show ?thesis by (simp add: slice_def)
qed

text \<open>
  C2. The claim is made for every format of chunk size \<open>c > 0\<close>. The frame is built
  with six column names, so it holds only for the formats whose tuples have six fields:
  with the five-field format \<^verbatim>\<open>>IIIII\<close>, of 20 bytes, a buffer of 45 bytes gives
  \<^verbatim>\<open>ValueError\<close> from the \<^verbatim>\<open>DataFrame\<close> constructor and not two rows.
\<close>

theorem bi5_to_df_chunks_counterexample:
  "struct_calcsize demo_env ''>IIIII'' = Inr 20 \<and>
   length (take 45 demo_candles) = 45 \<and>
   bi5_to_df demo_env (take 45 demo_candles) ''>IIIII'' = Inl ValueError"
  by code_simp

text \<open>
  C2, as amended. Let the format have chunk size \<open>c > 0\<close> and let \<^verbatim>\<open>struct.unpack\<close>
  decode every buffer of \<open>c\<close> bytes into six fields. Then \<^verbatim>\<open>bi5_to_df\<close> returns
  \<open>length raw div c\<close> rows, row \<open>step\<close> is the decoded slice
  \<open>raw[step*c : step*c + c]\<close>, and the bytes after the last whole chunk do not matter.
\<close>

theorem bi5_to_df_chunks:
  assumes "struct_calcsize E fmt = Inr c" and "0 < c"
    and "\<And>b. length b = c \<Longrightarrow> \<exists>t. struct_unpack E fmt b = Inr t \<and> length t = 6"
  shows "\<exists>rows. bi5_to_df E raw fmt = Inr rows \<and>
           length rows = length raw div c \<and>
           (\<forall>step < length raw div c. \<exists>t.
              struct_unpack E fmt (slice raw (step * c) (step * c + c)) = Inr t \<and>
              rows ! step = row_of_tuple t) \<and>
           bi5_to_df E (take (c * (length raw div c)) raw) fmt = Inr rows"
proof -
  define n where "n = length raw div c"
  define f where "f = (\<lambda>step. projr (struct_unpack E fmt (slice raw (c * step) (c * step + c))))"
  have ok: "struct_unpack E fmt (slice raw (c * step) (c * step + c)) = Inr (f step) \<and> length (f step) = 6"
    if "step < n" for step
  proof -
    from that have "length (slice raw (c * step) (c * step + c)) = c"
      unfolding n_def by (rule slice_length)
    from assms(3) [OF this] show ?thesis by (auto simp: f_def)
  qed
  have loop: "unpack_loop E fmt raw c [0..<n] [] = Inr (map f [0..<n])"
    using unpack_loop_ok [of "[0..<n]" E fmt raw c f "[]"] ok by simp
  have six: "list_all (\<lambda>t. length t = 6) (map f [0..<n])"
    using ok by (simp add: list_all_iff)
  define rows where "rows = map row_of_tuple (map f [0..<n])"
  have r1: "bi5_to_df E raw fmt = Inr rows"
    using assms(1,2) loop six
    by (simp add: bi5_to_df_def bind_e_Inr Let_def n_def [symmetric] DataFrame_def rows_def)
  have len: "length (take (c * n) raw) div c = n"
  proof -
    have "c * n \<le> length raw" unfolding n_def by simp
    then have "length (take (c * n) raw) = c * n" by simp
    with assms(2) show ?thesis by simp
  qed
  have loop': "unpack_loop E fmt (take (c * n) raw) c [0..<n] [] = Inr (map f [0..<n])"
  proof (rule unpack_loop_ok [where acc = "[]", simplified])
    fix step assume "step \<in> set [0..<n]"
    then have s: "step < n" by simp
    then have "Suc step \<le> n" by simp
    then have "c * Suc step \<le> c * n" by (rule mult_le_mono2)
    then have "c * step + c \<le> c * n" by simp
    then have "slice (take (c * n) raw) (c * step) (c * step + c) = slice raw (c * step) (c * step + c)"
      by (rule slice_take)
    with ok [OF s] show "struct_unpack E fmt (slice (take (c * n) raw) (c * step) (c * step + c)) = Inr (f step)"
      by simp
  qed
  have r2: "bi5_to_df E (take (c * n) raw) fmt = Inr rows"
    using assms(1,2) loop' six len
    by (simp add: bi5_to_df_def bind_e_Inr Let_def DataFrame_def rows_def)
  have r3: "\<forall>step < n. \<exists>t. struct_unpack E fmt (slice raw (step * c) (step * c + c)) = Inr t \<and>
              rows ! step = row_of_tuple t"
    using ok by (auto simp: rows_def mult.commute)
  have "length rows = n" by (simp add: rows_def)
  with r1 r2 r3 show ?thesis unfolding n_def by blast
qed

lemma std_unpack_length:
  assumes "std_calcsize fmt = Inr c" and "length b = c"
  shows "\<exists>t. std_unpack fmt b = Inr t \<and> length t = length fmt - 1"
proof -
  from assms(1) obtain cs where cs: "std_codes fmt = Some cs" and c: "c = sum_list (map code_size cs)"
    by (auto simp: std_calcsize_def split: option.splits)
  from cs have "length cs = length fmt - 1"
    by (auto simp: std_codes_def split: list.splits if_splits)
  moreover have "length (decode_fields l cs bs) = length cs" for l bs
    by (induction cs arbitrary: bs) simp_all
  ultimately show ?thesis using cs c assms(2) by (simp add: std_unpack_def)
qed

text \<open>45 bytes with the 20-byte format \<^verbatim>\<open>>IIIIHH\<close> give two rows.\<close>

theorem bi5_to_df_chunks_witness:
  "struct_calcsize demo_env ''>IIIIHH'' = Inr 20 \<and>
   length (take 45 demo_candles) = 45 \<and>
   (\<exists>rows. bi5_to_df demo_env (take 45 demo_candles) ''>IIIIHH'' = Inr rows \<and> length rows = 2)"
proof -
  have c: "struct_calcsize demo_env ''>IIIIHH'' = Inr 20"
    by (simp add: demo_env_def std_calcsize_def std_codes_def code_size_def)
  have u: "\<exists>t. struct_unpack demo_env ''>IIIIHH'' b = Inr t \<and> length t = 6" if "length b = 20" for b
  proof -
    from c have "std_calcsize ''>IIIIHH'' = Inr 20" by (simp add: demo_env_def)
    from std_unpack_length [OF this that] show ?thesis by (simp add: demo_env_def eval_nat_numeral)
  qed
  have l: "length (take 45 demo_candles) = 45" by (simp add: demo_candles_def)
  from bi5_to_df_chunks [OF c _ u, of "take 45 demo_candles"] l c show ?thesis
    by auto
qed

section \<open>The calendar\<close>

text \<open>\<^verbatim>\<open>_ymd2ord\<close> undoes \<^verbatim>\<open>_ord2ymd\<close>, for every ordinal.\<close>

lemma month_part:
  assumes "0 \<le> n" "n \<le> 365"
    and "(let m = (n + 50) div 32;
              preceding = DAYS_BEFORE_MONTH ! nat m + (if m > 2 \<and> lp then 1 else 0)
          in if preceding > n then
               (let m = m - 1;
                    preceding = preceding - (DAYS_IN_MONTH ! nat m + (if m = 2 \<and> lp then 1 else 0))
                in (yr, m, n - preceding + 1))
             else (yr, m, n - preceding + 1)) = (y, mm, d)"
  shows "y = yr \<and> DAYS_BEFORE_MONTH ! nat mm + (if mm > 2 \<and> lp then 1 else 0) + d = n + (1::int)"
proof -
  define m where "m = (n + 50) div 32"
  from assms have "1 \<le> m" "m \<le> 12" unfolding m_def by presburger+
  then have "m = 1 \<or> m = 2 \<or> m = 3 \<or> m = 4 \<or> m = 5 \<or> m = 6 \<or> m = 7 \<or> m = 8 \<or> m = 9 \<or> m = 10 \<or> m = 11 \<or> m = 12"
    by arith
  then show ?thesis
    using assms unfolding m_def[symmetric] Let_def
    by (auto simp: DAYS_BEFORE_MONTH_def DAYS_IN_MONTH_def split: if_splits)
qed

lemma decompose:
  fixes n :: int
  defines "a \<equiv> n div 146097" and "r1 \<equiv> n mod 146097"
  defines "b \<equiv> r1 div 36524" and "r2 \<equiv> r1 mod 36524"
  defines "c \<equiv> r2 div 1461" and "r3 \<equiv> r2 mod 1461"
  defines "e \<equiv> r3 div 365" and "r4 \<equiv> r3 mod 365"
  shows "n = 146097 * a + 36524 * b + 1461 * c + 365 * e + r4"
    and "0 \<le> b" "b \<le> 4" "0 \<le> c" "c \<le> 24" "0 \<le> e" "e \<le> 4" "0 \<le> r4" "r4 < 365"
    and "b = 4 \<Longrightarrow> c = 0 \<and> e = 0 \<and> r4 = 0"
    and "e = 4 \<Longrightarrow> r4 = 0 \<and> c \<le> 23"
proof -
  have r1: "0 \<le> r1" "r1 < 146097" by (simp_all add: r1_def)
  have r2: "0 \<le> r2" "r2 < 36524" by (simp_all add: r2_def)
  have r3: "0 \<le> r3" "r3 < 1461" by (simp_all add: r3_def)
  have r4: "0 \<le> r4" "r4 < 365" by (simp_all add: r4_def)
  have n: "n = 146097 * a + r1" by (simp add: a_def r1_def)
  have e1: "r1 = 36524 * b + r2" by (simp add: b_def r2_def)
  have e2: "r2 = 1461 * c + r3" by (simp add: c_def r3_def)
  have e3: "r3 = 365 * e + r4" by (simp add: e_def r4_def)
  show "n = 146097 * a + 36524 * b + 1461 * c + 365 * e + r4"
    using n e1 e2 e3 by simp
  show "0 \<le> r4" "r4 < 365" by fact+
  show "0 \<le> b" using r1 by (simp add: b_def)
  show b4: "b \<le> 4" using r1 e1 r2 by linarith
  show "0 \<le> c" using r2 by (simp add: c_def)
  show "c \<le> 24" using r2 e2 r3 by linarith
  show "0 \<le> e" using r3 by (simp add: e_def)
  show "e \<le> 4" using r3 e3 r4 by linarith
  have epos: "0 \<le> e" using r3 by (simp add: e_def)
  have cpos: "0 \<le> c" using r2 by (simp add: c_def)
  show "b = 4 \<Longrightarrow> c = 0 \<and> e = 0 \<and> r4 = 0"
    using r1 e1 e2 e3 r2 r3 r4 epos cpos by linarith
  show "e = 4 \<Longrightarrow> r4 = 0 \<and> c \<le> 23"
    using e2 e3 r2 r3 r4 by linarith
qed

lemma div_decomp:
  fixes q r k :: int
  assumes "0 \<le> r" "r < k"
  shows "(q * k + r) div k = q"
proof -
  from assms have k: "k \<noteq> 0" by simp
  have "(q * k + r) div k = q + r div k" using k by simp
  also have "r div k = 0" using assms by (simp add: div_pos_pos_trivial)
  finally show ?thesis by simp
qed

lemma mod_decomp:
  fixes q r k :: int
  assumes "0 \<le> r" "r < k"
  shows "(q * k + r) mod k = r"
  using assms by simp

lemma mod_zero_top:
  fixes q t k :: int
  assumes "1 \<le> t" "t \<le> k"
  shows "((q * k + t) mod k = 0) = (t = k)"
proof (cases "t = k")
  case True
  then show ?thesis by simp
next
  case False
  with assms have "0 \<le> t" "t < k" by simp_all
  then have "(q * k + t) mod k = t" by simp
  with assms False show ?thesis by simp
qed

lemma days_before_year_decomp:
  fixes a b c e :: int
  assumes "0 \<le> b" "b \<le> 3" "0 \<le> c" "c \<le> 24" "0 \<le> e" "e \<le> 3"
  shows "days_before_year (400 * a + 100 * b + 4 * c + e + 1) =
           146097 * a + 36524 * b + 1461 * c + 365 * e"
proof -
  define y where "y = 400 * a + 100 * b + 4 * c + e"
  have "y = (100 * a + 25 * b + c) * 4 + e" by (simp add: y_def)
  moreover have "0 \<le> e" "e < 4" using assms by simp_all
  ultimately have d4: "y div 4 = 100 * a + 25 * b + c" by (simp only: div_decomp)
  have "y = (4 * a + b) * 100 + (4 * c + e)" by (simp add: y_def)
  moreover have "0 \<le> 4 * c + e" "4 * c + e < 100" using assms by simp_all
  ultimately have d100: "y div 100 = 4 * a + b" by (simp only: div_decomp)
  have "y = a * 400 + (100 * b + 4 * c + e)" by (simp add: y_def)
  moreover have "0 \<le> 100 * b + 4 * c + e" "100 * b + 4 * c + e < 400" using assms by simp_all
  ultimately have d400: "y div 400 = a" by (simp only: div_decomp)
  have "days_before_year (y + 1) = y * 365 + y div 4 - y div 100 + y div 400"
    by (simp add: days_before_year_def Let_def)
  also have "\<dots> = 146097 * a + 36524 * b + 1461 * c + 365 * e"
    unfolding d4 d100 d400 by (simp add: y_def)
  finally show ?thesis by (simp add: y_def)
qed

lemma is_leap_decomp:
  fixes a b c e :: int
  assumes "0 \<le> b" "b \<le> 3" "0 \<le> c" "c \<le> 24" "0 \<le> e" "e \<le> 3"
  shows "is_leap (400 * a + 100 * b + 4 * c + e + 1) = (e = 3 \<and> (c \<noteq> 24 \<or> b = 3))"
proof -
  define y where "y = 400 * a + 100 * b + 4 * c + e + 1"
  have "y = (100 * a + 25 * b + c) * 4 + (e + 1)" by (simp add: y_def)
  moreover have "1 \<le> e + 1" "e + 1 \<le> 4" using assms by simp_all
  ultimately have m4: "(y mod 4 = 0) = (e + 1 = 4)" by (simp only: mod_zero_top)
  have "y = (4 * a + b) * 100 + (4 * c + e + 1)" by (simp add: y_def)
  moreover have "1 \<le> 4 * c + e + 1" "4 * c + e + 1 \<le> 100" using assms by simp_all
  ultimately have m100: "(y mod 100 = 0) = (4 * c + e + 1 = 100)" by (simp only: mod_zero_top)
  have "y = a * 400 + (100 * b + 4 * c + e + 1)" by (simp add: y_def)
  moreover have "1 \<le> 100 * b + 4 * c + e + 1" "100 * b + 4 * c + e + 1 \<le> 400" using assms by simp_all
  ultimately have m400: "(y mod 400 = 0) = (100 * b + 4 * c + e + 1 = 400)" by (simp only: mod_zero_top)
  have "is_leap y = (e + 1 = 4 \<and> (4 * c + e + 1 \<noteq> 100 \<or> 100 * b + 4 * c + e + 1 = 400))"
    unfolding is_leap_def m4 m100 m400 by simp
  also have "\<dots> = (e = 3 \<and> (c \<noteq> 24 \<or> b = 3))" using assms by auto
  finally show ?thesis by (simp add: y_def)
qed


lemma ymd2ord_ord2ymd:
  assumes "ord2ymd n0 = (y, m, d)"
  shows "ymd2ord y m d = n0"
proof -
  define n where "n = n0 - 1"
  define a where "a = n div 146097"
  define r1 where "r1 = n mod 146097"
  define b where "b = r1 div 36524"
  define r2 where "r2 = r1 mod 36524"
  define c where "c = r2 div 1461"
  define r3 where "r3 = r2 mod 1461"
  define e where "e = r3 div 365"
  define r4 where "r4 = r3 mod 365"
  note defs = n_def a_def r1_def b_def r2_def c_def r3_def e_def r4_def
  have n: "n = 146097 * a + 36524 * b + 1461 * c + 365 * e + r4"
    unfolding defs by (rule decompose(1))
  have bnd: "0 \<le> b" "b \<le> 4" "0 \<le> c" "c \<le> 24" "0 \<le> e" "e \<le> 4" "0 \<le> r4" "r4 < 365"
    unfolding defs by (rule decompose)+
  have b4: "b = 4 \<Longrightarrow> c = 0 \<and> e = 0 \<and> r4 = 0"
    unfolding defs by (rule decompose(10))
  have e4: "e = 4 \<Longrightarrow> r4 = 0 \<and> c \<le> 23"
    unfolding defs by (rule decompose(11))
  define lp where "lp = (e = 3 \<and> (c \<noteq> 24 \<or> b = 3))"
  define yr where "yr = a * 400 + 1 + (b * 100 + c * 4 + e)"
  have ord: "ord2ymd n0 =
     (if e = 4 \<or> b = 4 then (yr - 1, 12, 31)
      else
        (let m = (r4 + 50) div 32;
             preceding = DAYS_BEFORE_MONTH ! nat m + (if m > 2 \<and> lp then 1 else 0)
         in if preceding > r4 then
              (let m = m - 1;
                   preceding = preceding - (DAYS_IN_MONTH ! nat m + (if m = 2 \<and> lp then 1 else 0))
               in (yr, m, r4 - preceding + 1))
            else (yr, m, r4 - preceding + 1)))"
    unfolding ord2ymd_def Let_def defs lp_def yr_def by (rule refl)
  show ?thesis
  proof (cases "e = 4 \<or> b = 4")
    case True
    with assms ord have ymd: "y = yr - 1" "m = 12" "d = 31" by simp_all
    show ?thesis
    proof (cases "b = 4")
      case True
      with b4 have z: "c = 0" "e = 0" "r4 = 0" by simp_all
      have "y = 400 * a + 100 * 3 + 4 * 24 + 3 + 1" using ymd True z by (simp add: yr_def)
      moreover have "days_before_year (400 * a + 100 * 3 + 4 * 24 + 3 + 1) =
          146097 * a + 36524 * 3 + 1461 * 24 + 365 * 3"
        by (rule days_before_year_decomp) simp_all
      moreover have "is_leap (400 * a + 100 * 3 + 4 * 24 + 3 + 1) = (3 = (3::int) \<and> ((24::int) \<noteq> 24 \<or> 3 = (3::int)))"
        by (rule is_leap_decomp) simp_all
      ultimately show ?thesis
        using ymd n True z
        by (simp add: ymd2ord_def days_before_month_def DAYS_BEFORE_MONTH_def n_def)
    next
      case False
      with True bnd have e: "e = 4" and b3: "b \<le> 3" by simp_all
      with e4 have z: "r4 = 0" "c \<le> 23" by simp_all
      have "y = 400 * a + 100 * b + 4 * c + 3 + 1" using ymd e by (simp add: yr_def)
      moreover have "days_before_year (400 * a + 100 * b + 4 * c + 3 + 1) =
          146097 * a + 36524 * b + 1461 * c + 365 * 3"
        using bnd b3 by (intro days_before_year_decomp) simp_all
      moreover have "is_leap (400 * a + 100 * b + 4 * c + 3 + 1) = (3 = (3::int) \<and> (c \<noteq> 24 \<or> b = 3))"
        using bnd b3 by (intro is_leap_decomp) simp_all
      ultimately show ?thesis
        using ymd n e z
        by (simp add: ymd2ord_def days_before_month_def DAYS_BEFORE_MONTH_def n_def)
    qed
  next
    case False
    with bnd have b3: "b \<le> 3" and e3: "e \<le> 3" by simp_all
    have yr: "yr = 400 * a + 100 * b + 4 * c + e + 1" by (simp add: yr_def)
    have dby: "days_before_year yr = 146097 * a + 36524 * b + 1461 * c + 365 * e"
      unfolding yr using bnd b3 e3 by (intro days_before_year_decomp) simp_all
    have lp: "is_leap yr = lp"
      unfolding yr lp_def using bnd b3 e3 by (intro is_leap_decomp) simp_all
    have r4: "0 \<le> r4" "r4 \<le> 365" using bnd by simp_all
    have "(let m = (r4 + 50) div 32;
             preceding = DAYS_BEFORE_MONTH ! nat m + (if m > 2 \<and> lp then 1 else 0)
         in if preceding > r4 then
              (let m = m - 1;
                   preceding = preceding - (DAYS_IN_MONTH ! nat m + (if m = 2 \<and> lp then 1 else 0))
               in (yr, m, r4 - preceding + 1))
            else (yr, m, r4 - preceding + 1)) = (y, m, d)"
      using assms False unfolding ord by (simp only: if_False)
    from month_part[OF r4 this]
    have y: "y = yr" and "DAYS_BEFORE_MONTH ! nat m + (if m > 2 \<and> lp then 1 else 0) + d = r4 + 1"
      by simp_all
    then have "days_before_month yr m + d = r4 + 1"
      by (simp add: days_before_month_def lp)
    then show ?thesis using y dby n by (simp add: ymd2ord_def n_def)
  qed
qed

lemma days_before_year_bounds:
  assumes "1 \<le> y" "y \<le> 9999"
  shows "0 \<le> days_before_year y" "days_before_year y + (if is_leap y then 366 else 365) \<le> 3652059"
proof -
  define z where "z = y - 1"
  define q4 where "q4 = z div 4"
  define q100 where "q100 = z div 100"
  define q400 where "q400 = z div 400"
  have z: "0 \<le> z" "z \<le> 9998" using assms by (simp_all add: z_def)
  have a4: "4 * q4 \<le> z" "z < 4 * q4 + 4" unfolding q4_def by presburger+
  have a100: "100 * q100 \<le> z" "z < 100 * q100 + 100" unfolding q100_def by presburger+
  have a400: "400 * q400 \<le> z" "z < 400 * q400 + 400" unfolding q400_def by presburger+
  have d: "days_before_year y = z * 365 + q4 - q100 + q400"
    by (simp add: days_before_year_def Let_def z_def q4_def q100_def q400_def)
  have nn: "0 \<le> q4" "0 \<le> q400" using z by (simp_all add: q4_def q400_def)
  show "0 \<le> days_before_year y" unfolding d using z nn a100 by linarith
  show "days_before_year y + (if is_leap y then 366 else 365) \<le> 3652059"
  proof (cases "z \<le> 9997")
    case True
    then show ?thesis unfolding d using z a4 a100 a400 by (auto split: if_splits)
  next
    case False
    with z have "z = 9998" by simp
    then have "y = 9999" by (simp add: z_def)
    then show ?thesis by (simp add: is_leap_def days_before_year_def)
  qed
qed

lemma days_before_month_bounds:
  assumes "1 \<le> m" "m \<le> 12" "1 \<le> d" "d \<le> days_in_month y m"
  shows "1 \<le> days_before_month y m + d"
    and "days_before_month y m + d \<le> (if is_leap y then 366 else 365)"
proof -
  from assms(1,2) have "m = 1 \<or> m = 2 \<or> m = 3 \<or> m = 4 \<or> m = 5 \<or> m = 6 \<or> m = 7 \<or> m = 8 \<or> m = 9 \<or> m = 10 \<or> m = 11 \<or> m = 12"
    by arith
  then show "1 \<le> days_before_month y m + d"
    and "days_before_month y m + d \<le> (if is_leap y then 366 else 365)"
    using assms(3,4)
    by (auto simp: days_before_month_def days_in_month_def DAYS_BEFORE_MONTH_def DAYS_IN_MONTH_def split: if_splits)
qed

lemma ymd2ord_bounds:
  assumes "check_date_fields y m d"
  shows "1 \<le> ymd2ord y m d" "ymd2ord y m d \<le> MAXORDINAL"
proof -
  from assms have y: "1 \<le> y" "y \<le> 9999" and m: "1 \<le> m" "m \<le> 12" "1 \<le> d" "d \<le> days_in_month y m"
    by (simp_all add: check_date_fields_def MINYEAR_def MAXYEAR_def)
  note a = days_before_year_bounds [OF y] and b = days_before_month_bounds [OF m]
  show "1 \<le> ymd2ord y m d" using a(1) b(1) by (simp add: ymd2ord_def)
  show "ymd2ord y m d \<le> MAXORDINAL" using a(2) b(2) by (simp add: ymd2ord_def MAXORDINAL_def)
qed

section \<open>Adding a timedelta to a datetime\<close>

lemma hms_of_seconds:
  fixes s :: int
  shows "s div 3600 * 3600 + (s mod 3600 div 60 * 60 + s mod 3600 mod 60) = s"
proof -
  have "s mod 3600 div 60 * 60 + s mod 3600 mod 60 = s mod 3600" by simp
  then show ?thesis by simp
qed

lemma timestamp_datetime_of_timestamp: "timestamp (datetime_of_timestamp ts) = ts"
proof -
  obtain y m d where o: "ord2ymd (ts div 86400) = (y, m, d)" by (cases "ord2ymd (ts div 86400)")
  then have "ymd2ord y m d = ts div 86400" by (rule ymd2ord_ord2ymd)
  moreover have "ts mod 86400 div 3600 * 3600 +
      (ts mod 86400 mod 3600 div 60 * 60 + ts mod 86400 mod 3600 mod 60) = ts mod 86400"
    by (rule hms_of_seconds)
  ultimately have "timestamp (datetime_of_timestamp ts) = ts div 86400 * 86400 + ts mod 86400"
    by (simp add: timestamp_def datetime_of_timestamp_def o toordinal_def)
  then show ?thesis by simp
qed

lemma valid_datetime_seconds:
  assumes "valid_datetime dt"
  shows "0 \<le> hour dt * 3600 + minute dt * 60 + second dt"
    and "hour dt * 3600 + minute dt * 60 + second dt < 86400"
  using assms by (simp_all add: valid_datetime_def)

lemma valid_datetime_ordinal:
  assumes "valid_datetime dt"
  shows "1 \<le> toordinal dt" and "toordinal dt \<le> MAXORDINAL"
  using assms ymd2ord_bounds [of "year dt" "month dt" "day dt"]
  by (simp_all add: valid_datetime_def toordinal_def)

lemma datetime_add_timedelta_bounds:
  assumes "1 \<le> toordinal dt" and "toordinal dt \<le> MAXORDINAL"
    and "0 \<le> hour dt * 3600 + minute dt * 60 + second dt"
    and "hour dt * 3600 + minute dt * 60 + second dt < 86400"
  shows "bind_e (new_timedelta dd ss) (datetime_add dt) =
           (if in_datetime_range (timestamp dt + (dd * 86400 + ss))
            then Inr (datetime_of_timestamp (timestamp dt + (dd * 86400 + ss)))
            else Inl OverflowError)"
proof -
  define ord where "ord = toordinal dt"
  define secs where "secs = hour dt * 3600 + minute dt * 60 + second dt"
  define d1 where "d1 = dd + ss div 86400"
  define s1 where "s1 = ss mod 86400"
  define T where "T = timestamp dt + (dd * 86400 + ss)"
  define d2 where "d2 = ord + d1 + (secs + s1) div 86400"
  define s2 where "s2 = (secs + s1) mod 86400"
  have secs: "0 \<le> secs" "secs < 86400"
    unfolding secs_def using assms(3,4) by simp_all
  have ord: "1 \<le> ord" "ord \<le> 3652059"
    unfolding ord_def using assms(1,2) by (simp_all add: MAXORDINAL_def)
  have s1: "0 \<le> s1" "s1 < 86400" by (simp_all add: s1_def)
  have ss: "ss = ss div 86400 * 86400 + s1" by (simp add: s1_def)
  have T: "T = (ord + d1) * 86400 + (secs + s1)"
    unfolding T_def timestamp_def ord_def [symmetric] secs_def [symmetric] d1_def
    using ss by (simp add: algebra_simps)
  have Tdiv: "T div 86400 = d2" unfolding T d2_def by simp
  have Tmod: "T mod 86400 = s2" unfolding T s2_def by (rule mod_mult_self3)
  have q: "0 \<le> (secs + s1) div 86400" "(secs + s1) div 86400 \<le> 1"
    using secs s1 by simp_all
  have td1: "new_timedelta dd ss =
      (if \<bar>d1\<bar> > 999999999 then Inl OverflowError else Inr (Timedelta d1 s1))"
    by (simp add: new_timedelta_def Let_def d1_def s1_def)
  have td0: "new_timedelta ord secs = Inr (Timedelta ord secs)"
    using secs ord by (simp add: new_timedelta_def Let_def)
  have td2: "new_timedelta (ord + d1) (secs + s1) =
      (if \<bar>d2\<bar> > 999999999 then Inl OverflowError else Inr (Timedelta d2 s2))"
    by (simp add: new_timedelta_def Let_def d2_def s2_def)
  have add: "datetime_add dt (Timedelta d1 s1) =
      (if \<bar>d2\<bar> > 999999999 then Inl OverflowError
       else if 0 < d2 \<and> d2 \<le> MAXORDINAL then Inr (datetime_of_timestamp T)
       else Inl OverflowError)"
    unfolding datetime_add_def ord_def [symmetric] secs_def [symmetric] td0 bind_e_Inr
    by (simp add: td2 bind_e_Inr bind_e_Inl Let_def datetime_of_timestamp_def Tdiv Tmod
        split: prod.splits)
  have rng: "in_datetime_range T = (0 < d2 \<and> d2 \<le> MAXORDINAL)"
  proof -
    have "T = d2 * 86400 + s2" using Tdiv Tmod by (metis mult.commute mult_div_mod_eq)
    moreover have "0 \<le> s2" "s2 < 86400" by (simp_all add: s2_def)
    ultimately show ?thesis by (auto simp: in_datetime_range_def MAXORDINAL_def)
  qed
  show ?thesis
  proof (cases "\<bar>d1\<bar> > 999999999")
    case True
    then have "\<not> (0 < d2 \<and> d2 \<le> MAXORDINAL)"
      unfolding d2_def using ord q by (auto simp: MAXORDINAL_def)
    with True show ?thesis
      unfolding T_def [symmetric] by (simp add: td1 bind_e_Inl rng)
  next
    case False
    then show ?thesis
      unfolding T_def [symmetric] by (auto simp: td1 bind_e_Inr add rng MAXORDINAL_def)
  qed
qed

lemma datetime_add_timedelta:
  assumes "valid_datetime dt"
  shows "bind_e (new_timedelta dd ss) (datetime_add dt) =
           (if in_datetime_range (timestamp dt + (dd * 86400 + ss))
            then Inr (datetime_of_timestamp (timestamp dt + (dd * 86400 + ss)))
            else Inl OverflowError)"
proof -
  note o = valid_datetime_ordinal [OF assms] and s = valid_datetime_seconds [OF assms]
  show ?thesis by (rule datetime_add_timedelta_bounds [OF o s])
qed

section \<open>What normalize_df does to the columns\<close>

lemma map_e_if:
  "map_e (\<lambda>x. if P x then Inr (g x) else Inl e) xs =
     (if list_all P xs then Inr (map g xs) else Inl e)"
  by (induction xs) (simp_all add: bind_e_def)

lemma map_e_length: "map_e f xs = Inr ys \<Longrightarrow> length ys = length xs"
proof (induction xs arbitrary: ys)
  case Nil
  then show ?case by simp
next
  case (Cons x xs)
  then show ?case by (auto simp: bind_e_def split: sum.splits)
qed

lemma normalize_df_scaled:
  "normalize_df df dt =
     bind_e (map_e (\<lambda>x. bind_e (new_timedelta 0 x) (datetime_add dt)) (map time_col df))
       (\<lambda>times. Inr (map (\<lambda>(t, r). scaled t r) (zip times df)))"
  by (simp add: normalize_df_def scaled_def)

lemma normalize_df_bounds:
  assumes "1 \<le> toordinal dt" and "toordinal dt \<le> MAXORDINAL"
    and "0 \<le> hour dt * 3600 + minute dt * 60 + second dt"
    and "hour dt * 3600 + minute dt * 60 + second dt < 86400"
  shows "normalize_df df dt =
     (if list_all (\<lambda>r. in_datetime_range (timestamp dt + time_col r)) df
      then Inr (map (\<lambda>r. scaled (datetime_of_timestamp (timestamp dt + time_col r)) r) df)
      else Inl OverflowError)"
proof -
  have f: "(\<lambda>x. bind_e (new_timedelta 0 x) (datetime_add dt)) =
      (\<lambda>x. if in_datetime_range (timestamp dt + x)
            then Inr (datetime_of_timestamp (timestamp dt + x)) else Inl OverflowError)"
  proof (rule ext)
    fix x
    show "bind_e (new_timedelta 0 x) (datetime_add dt) =
      (if in_datetime_range (timestamp dt + x)
       then Inr (datetime_of_timestamp (timestamp dt + x)) else Inl OverflowError)"
      using datetime_add_timedelta_bounds [OF assms, of 0 x] by simp
  qed
  have z: "map (\<lambda>(t, r). scaled t r) (zip (map g (map time_col df)) df) =
      map (\<lambda>r. scaled (g (time_col r)) r) df" for g
    by (induction df) simp_all
  have la: "list_all (\<lambda>x. in_datetime_range (timestamp dt + x)) (map time_col df) =
      list_all (\<lambda>r. in_datetime_range (timestamp dt + time_col r)) df"
    by (simp add: list_all_iff)
  show ?thesis
    unfolding normalize_df_scaled f map_e_if la
    by (simp only: bind_e_Inr bind_e_Inl z if_distrib [of "\<lambda>r. bind_e r _"] cong: if_cong)
qed

lemma normalize_df_valid:
  assumes "valid_datetime dt"
  shows "normalize_df df dt =
     (if list_all (\<lambda>r. in_datetime_range (timestamp dt + time_col r)) df
      then Inr (map (\<lambda>r. scaled (datetime_of_timestamp (timestamp dt + time_col r)) r) df)
      else Inl OverflowError)"
proof -
  note o = valid_datetime_ordinal [OF assms] and s = valid_datetime_seconds [OF assms]
  show ?thesis by (rule normalize_df_bounds [OF o s])
qed

lemma map_zip_snd:
  "length ts = length xs \<Longrightarrow> map (\<lambda>(t, r). f r) (zip ts xs) = map f xs"
  by (induction ts xs rule: list_induct2) simp_all

lemma normalize_df_columns:
  assumes "normalize_df df dt = Inr rows"
  shows "map open_col rows = map (\<lambda>r. of_int (open_col r) / 1000) df"
    and "map high_col rows = map (\<lambda>r. of_int (high_col r) / 1000) df"
    and "map low_col rows = map (\<lambda>r. of_int (low_col r) / 1000) df"
    and "map close_col rows = map (\<lambda>r. of_int (close_col r) / 1000) df"
    and "map volume_col rows = map volume_col df"
proof -
  from assms obtain times
    where t: "map_e (\<lambda>x. bind_e (new_timedelta 0 x) (datetime_add dt)) (map time_col df) = Inr times"
      and r: "rows = map (\<lambda>(t, r). scaled t r) (zip times df)"
    unfolding normalize_df_scaled by (auto simp: bind_e_def split: sum.splits)
  from map_e_length [OF t] have l: "length times = length df" by simp
  have c: "map h rows = map (\<lambda>(t, r). h (scaled t r)) (zip times df)" for h :: "price_row \<Rightarrow> 'b"
    unfolding r by (simp add: case_prod_unfold comp_def)
  show "map open_col rows = map (\<lambda>r. of_int (open_col r) / 1000) df"
    unfolding c by (simp add: scaled_def map_zip_snd [OF l])
  show "map high_col rows = map (\<lambda>r. of_int (high_col r) / 1000) df"
    unfolding c by (simp add: scaled_def map_zip_snd [OF l])
  show "map low_col rows = map (\<lambda>r. of_int (low_col r) / 1000) df"
    unfolding c by (simp add: scaled_def map_zip_snd [OF l])
  show "map close_col rows = map (\<lambda>r. of_int (close_col r) / 1000) df"
    unfolding c by (simp add: scaled_def map_zip_snd [OF l])
  show "map volume_col rows = map volume_col df"
    unfolding c by (simp add: scaled_def map_zip_snd [OF l])
qed

lemma demo_normalize: "normalize_df [demo_raw_row] (demo_day 1) = Inr [demo_row]"
  by code_simp

lemma demo_day_valid: "valid_datetime (demo_day 1)"
  by code_simp

lemma demo_in_range:
  "list_all (\<lambda>r. in_datetime_range (timestamp (demo_day 1) + time_col r)) [demo_raw_row]"
  by code_simp

text \<open>
  C4. When \<^verbatim>\<open>normalize_df\<close> returns, its open, high, low and close columns are those
  of the input divided by 1000, row by row, and its volume column is that of the input.
  It returns whenever the day is a valid \<^verbatim>\<open>datetime\<close> and every row's time stays in
  the range of \<^verbatim>\<open>datetime\<close>. The quotient is exact here; Python rounds it to a float.
\<close>

theorem normalize_df_prices:
  "(normalize_df df dt = Inr rows \<longrightarrow>
      map open_col rows = map (\<lambda>r. of_int (open_col r) / 1000) df \<and>
      map high_col rows = map (\<lambda>r. of_int (high_col r) / 1000) df \<and>
      map low_col rows = map (\<lambda>r. of_int (low_col r) / 1000) df \<and>
      map close_col rows = map (\<lambda>r. of_int (close_col r) / 1000) df \<and>
      map volume_col rows = map volume_col df) \<and>
   (valid_datetime dt \<and> list_all (\<lambda>r. in_datetime_range (timestamp dt + time_col r)) df \<longrightarrow>
      (\<exists>rows'. normalize_df df dt = Inr rows'))"
  using normalize_df_columns [of df dt rows] normalize_df_valid [of dt df] by simp

text \<open>An open price of 123456 becomes 123.456; the volume 7 stays 7.\<close>

theorem normalize_df_prices_witness:
  "valid_datetime (demo_day 1) \<and>
   list_all (\<lambda>r. in_datetime_range (timestamp (demo_day 1) + time_col r)) [demo_raw_row] \<and>
   normalize_df [demo_raw_row] (demo_day 1) = Inr [demo_row] \<and>
   open_col demo_raw_row = 123456 \<and> map open_col [demo_row] = [123.456] \<and>
   map high_col [demo_row] = [123.5] \<and> map low_col [demo_row] = [123.4] \<and>
   map close_col [demo_row] = [123.45] \<and> map volume_col [demo_row] = [7]"
  using normalize_df_prices [of "[demo_raw_row]" "demo_day 1" "[demo_row]"]
    demo_normalize demo_day_valid demo_in_range
  by (simp add: demo_raw_row_def)

text \<open>
  C5. For a valid day, \<^verbatim>\<open>normalize_df\<close> returns exactly when every row's time offset
  keeps the timestamp in the range of \<^verbatim>\<open>datetime\<close> (otherwise the addition raises
  \<^verbatim>\<open>OverflowError\<close>), and then the time of each row is the \<^verbatim>\<open>datetime\<close> whose
  timestamp is that of the day plus the offset in seconds.
\<close>

theorem normalize_df_time:
  assumes "valid_datetime dt"
  shows "(normalize_df df dt = Inr rows \<longrightarrow>
            map time_col rows = map (\<lambda>r. datetime_of_timestamp (timestamp dt + time_col r)) df \<and>
            map (\<lambda>r. timestamp (time_col r)) rows = map (\<lambda>r. timestamp dt + time_col r) df) \<and>
         ((\<exists>rows'. normalize_df df dt = Inr rows') =
            list_all (\<lambda>r. in_datetime_range (timestamp dt + time_col r)) df)"
proof -
  note v = normalize_df_valid [OF assms, of df]
  have "map (\<lambda>r. timestamp (time_col r)) rows = map (\<lambda>r. timestamp dt + time_col r) df"
    and "map time_col rows = map (\<lambda>r. datetime_of_timestamp (timestamp dt + time_col r)) df"
    if "normalize_df df dt = Inr rows"
    using that v by (auto simp: scaled_def timestamp_datetime_of_timestamp split: if_splits)
  moreover have "(\<exists>rows'. normalize_df df dt = Inr rows') =
      list_all (\<lambda>r. in_datetime_range (timestamp dt + time_col r)) df"
    using v by simp
  ultimately show ?thesis by blast
qed

text \<open>The offset 3661 on 2024-01-01 gives 2024-01-01 01:01:01.\<close>

theorem normalize_df_time_witness:
  "valid_datetime (demo_day 1) \<and> time_col demo_raw_row = 3661 \<and>
   normalize_df [demo_raw_row] (demo_day 1) = Inr [demo_row] \<and>
   time_col demo_row =
     \<lparr>year = 2024, month = 1, day = 1, hour = 1, minute = 1, second = 1\<rparr> \<and>
   map (\<lambda>r. timestamp (time_col r)) [demo_row] = [timestamp (demo_day 1) + 3661]"
proof -
  note t = normalize_df_time [OF demo_day_valid, of "[demo_raw_row]" "[demo_row]"]
  from t demo_normalize
  have "map (\<lambda>r. timestamp (time_col r)) [demo_row] =
      map (\<lambda>r. timestamp (demo_day 1) + time_col r) [demo_raw_row]"
    by blast
  moreover have o: "time_col demo_raw_row = 3661" by (simp add: demo_raw_row_def)
  ultimately have "map (\<lambda>r. timestamp (time_col r)) [demo_row] = [timestamp (demo_day 1) + 3661]"
    by simp
  moreover have "time_col demo_row =
      \<lparr>year = 2024, month = 1, day = 1, hour = 1, minute = 1, second = 1\<rparr>"
    by (simp add: demo_row_def)
  ultimately show ?thesis using demo_day_valid o demo_normalize by (intro conjI)
qed

section \<open>The days of download_period\<close>

lemma io_bind_return: "io_bind (Inr x, []) f = f x"
  by (simp add: io_bind_Inr)

lemma period_step_day_rows:
  "period_step E symbol fmt start_day d dataset =
     io_bind (io_pure (bind_e (new_timedelta (int d) 0) (datetime_add start_day))) (\<lambda>current_day.
     io_bind (day_rows E symbol fmt current_day) (\<lambda>df. (Inr (dataset @ df), [])))"
proof -
  have "io_bind (read_day E symbol cur) (\<lambda>raw_day.
       case raw_day of
         Minus_One \<Rightarrow> (Inr dataset, [])
       | Data raw \<Rightarrow>
           io_bind (io_pure (bi5_to_df E raw fmt)) (\<lambda>df.
           io_bind (io_pure (normalize_df df cur)) (\<lambda>df.
             (Inr (dataset @ df), [])))) =
     io_bind (day_rows E symbol fmt cur) (\<lambda>df. (Inr (dataset @ df), []))" for cur
    unfolding day_rows_def io_bind_assoc
    by (rule arg_cong [where f = "io_bind (read_day E symbol cur)"], rule ext)
      (simp add: io_bind_return io_bind_assoc split: day_data.splits)
  then show ?thesis by (simp add: period_step_def)
qed

lemma period_loop_concat:
  assumes "\<And>d. d \<in> set ds \<Longrightarrow>
     bind_e (new_timedelta (int d) 0) (datetime_add start_day) = Inr (cur d)"
  shows "period_loop E symbol fmt start_day ds dataset =
     io_bind (io_concat (map (\<lambda>d. day_rows E symbol fmt (cur d)) ds))
       (\<lambda>rows. (Inr (dataset @ rows), []))"
  using assms
proof (induction ds arbitrary: dataset)
  case Nil
  then show ?case by (simp add: io_bind_return)
next
  case (Cons d ds)
  have d: "bind_e (new_timedelta (int d) 0) (datetime_add start_day) = Inr (cur d)"
    by (rule Cons.prems) simp
  have IH: "period_loop E symbol fmt start_day ds dataset' =
      io_bind (io_concat (map (\<lambda>d. day_rows E symbol fmt (cur d)) ds))
        (\<lambda>rows. (Inr (dataset' @ rows), []))" for dataset'
    by (rule Cons.IH) (simp add: Cons.prems)
  show ?case
    by (simp add: period_step_day_rows d io_bind_pure_Inr io_bind_assoc io_bind_return IH)
qed

lemma upto_shift: "map (\<lambda>n. a + int n) [0..<k] = [a..a + int k - 1]"
proof (induction k)
  case 0
  then show ?case by simp
next
  case (Suc k)
  have "[a..a + int (Suc k) - 1] = [a..a + int k - 1] @ [a + int k]"
    using upto_rec2 [of a "a + int k"] by simp
  with Suc show ?case by simp
qed

lemma strptime_valid:
  assumes "strptime s = Inr dt"
  shows "valid_datetime dt" and "hour dt = 0" and "minute dt = 0" and "second dt = 0"
  using assms
  by (auto simp: strptime_def valid_datetime_def Let_def split: list.splits if_splits)

lemma strptime_error: "strptime s = Inl e \<Longrightarrow> e = ValueError"
  by (auto simp: strptime_def Let_def split: list.splits if_splits)

lemma midnight_timestamp:
  assumes "hour dt = 0" and "minute dt = 0" and "second dt = 0"
  shows "timestamp dt = toordinal dt * 86400"
  using assms by (simp add: timestamp_def)

lemma datetime_sub_midnight:
  assumes "strptime s1 = Inr sd" and "strptime s2 = Inr ed"
  shows "datetime_sub ed sd = Inr (Timedelta (toordinal ed - toordinal sd) 0)"
proof -
  note a = strptime_valid [OF assms(1)] and b = strptime_valid [OF assms(2)]
  note oa = valid_datetime_ordinal [OF a(1)] and ob = valid_datetime_ordinal [OF b(1)]
  have "\<not> \<bar>toordinal ed - toordinal sd\<bar> > 999999999"
    using oa ob by (simp add: MAXORDINAL_def)
  then show ?thesis
    using a(2-4) b(2-4) by (simp add: datetime_sub_def new_timedelta_def Let_def)
qed

lemma download_period_days:
  assumes "strptime start_day = Inr sd" and "strptime end_day = Inr ed"
  shows "download_period E symbol start_day end_day fmt =
     io_concat (map (\<lambda>n. day_rows E symbol fmt (day_of_ordinal n))
       [toordinal sd..toordinal ed - 1])"
proof -
  note a = strptime_valid [OF assms(1)] and b = strptime_valid [OF assms(2)]
  note oa = valid_datetime_ordinal [OF a(1)] and ob = valid_datetime_ordinal [OF b(1)]
  define k where "k = nat (toordinal ed - toordinal sd)"
  have step: "bind_e (new_timedelta (int d) 0) (datetime_add sd) =
      Inr (day_of_ordinal (toordinal sd + int d))" if "d \<in> set [0..<k]" for d
  proof -
    from that have "int d < toordinal ed - toordinal sd" by (simp add: k_def)
    then have "in_datetime_range (timestamp sd + (int d * 86400 + 0))"
      using oa ob by (simp add: midnight_timestamp [OF a(2-4)] in_datetime_range_def MAXORDINAL_def)
    moreover have "timestamp sd + (int d * 86400 + 0) = (toordinal sd + int d) * 86400"
      by (simp add: midnight_timestamp [OF a(2-4)] algebra_simps)
    ultimately show ?thesis
      using datetime_add_timedelta [OF a(1), of "int d" 0] by (simp add: day_of_ordinal_def)
  qed
  have "download_period E symbol start_day end_day fmt = period_loop E symbol fmt sd [0..<k] []"
    by (simp add: download_period_def assms io_bind_pure_Inr datetime_sub_midnight [OF assms] k_def)
  also have "\<dots> = io_bind (io_concat (map (\<lambda>d. day_rows E symbol fmt (day_of_ordinal (toordinal sd + int d))) [0..<k]))
       (\<lambda>rows. (Inr ([] @ rows), []))"
    using step by (rule period_loop_concat)
  also have "\<dots> = io_concat (map (\<lambda>d. day_rows E symbol fmt (day_of_ordinal (toordinal sd + int d))) [0..<k])"
    by (simp add: io_bind_unit)
  also have "map (\<lambda>d. day_rows E symbol fmt (day_of_ordinal (toordinal sd + int d))) [0..<k] =
      map (\<lambda>n. day_rows E symbol fmt (day_of_ordinal n)) (map (\<lambda>d. toordinal sd + int d) [0..<k])"
    by (simp add: comp_def)
  also have "map (\<lambda>d. toordinal sd + int d) [0..<k] = [toordinal sd..toordinal ed - 1]"
    unfolding upto_shift by (cases "toordinal sd \<le> toordinal ed") (simp_all add: k_def)
  finally show ?thesis .
qed

lemma toordinal_day_of_ordinal: "toordinal (day_of_ordinal n) = n"
proof -
  have "timestamp (day_of_ordinal n) = n * 86400"
    by (simp add: day_of_ordinal_def timestamp_datetime_of_timestamp)
  moreover have "hour (day_of_ordinal n) = 0" "minute (day_of_ordinal n) = 0" "second (day_of_ordinal n) = 0"
    by (simp_all add: day_of_ordinal_def datetime_of_timestamp_def split: prod.splits)
  ultimately show ?thesis by (simp add: timestamp_def)
qed

lemma io_concat_Inr:
  assumes "fst (io_concat ms) = Inr rows"
  shows "\<exists>blocks. map fst ms = map Inr blocks \<and> rows = concat blocks"
  using assms
proof (induction ms arbitrary: rows)
  case Nil
  then show ?case by simp
next
  case (Cons m ms)
  obtain r t where m: "m = (r, t)" by (cases m)
  obtain r' t' where c: "io_concat ms = (r', t')" by (cases "io_concat ms")
  from Cons.prems m c obtain xs ys where r: "r = Inr xs" and r': "r' = Inr ys" and rows: "rows = xs @ ys"
    by (auto simp: io_bind_def split: sum.splits prod.splits)
  from c r' have "fst (io_concat ms) = Inr ys" by simp
  from Cons.IH [OF this] obtain blocks where "map fst ms = map Inr blocks" "ys = concat blocks" by blast
  with m r rows have "map fst (m # ms) = map Inr (xs # blocks) \<and> rows = concat (xs # blocks)" by simp
  then show ?case by blast
qed

lemma demo_strptime:
  "strptime ''2024-01-01'' = Inr (demo_day 1)" "strptime ''2024-01-03'' = Inr (demo_day 3)"
  by code_simp+

lemma demo_toordinal: "toordinal (demo_day 1) = 738886" "toordinal (demo_day 3) = 738888"
  by code_simp+

section \<open>The concrete environment over a period\<close>

lemma demo_day_of_ordinal:
  "day_of_ordinal 738886 = demo_day 1" "day_of_ordinal 738887 = demo_day 2"
  by code_simp+

lemma demo_read_day_1:
  "read_day demo_env symbol (demo_day 1) =
     (Inr (Data demo_candles), [Requested (url symbol (demo_day 1))])"
  by (simp add: read_day_def demo_env_def demo_get_day format_0d_2_small demo_lzma_def)

lemma demo_read_day_2:
  "read_day demo_env symbol (demo_day 2) =
     (Inr Minus_One, [Requested (url symbol (demo_day 2)), Printed ''download failed...''])"
  by (simp add: read_day_def demo_env_def demo_get_day format_0d_2_small)

lemma demo_decode_normalize:
  "bind_e (bi5_to_df demo_env demo_candles ''>IIIIII'') (\<lambda>df. normalize_df df (demo_day 1)) =
     Inr demo_period_rows"
  by code_simp

lemma demo_day_rows_1:
  "day_rows demo_env symbol ''>IIIIII'' (demo_day 1) =
     (Inr demo_period_rows, [Requested (url symbol (demo_day 1))])"
proof -
  have "io_bind (io_pure (bi5_to_df demo_env demo_candles ''>IIIIII''))
          (\<lambda>df. io_pure (normalize_df df (demo_day 1))) = (Inr demo_period_rows, [])"
    by (subst io_bind_pure_pure) (simp add: demo_decode_normalize io_pure_def)
  then show ?thesis by (simp add: day_rows_def demo_read_day_1 io_bind_Inr)
qed

lemma demo_day_rows_2:
  "day_rows demo_env symbol fmt (demo_day 2) =
     (Inr [], [Requested (url symbol (demo_day 2)), Printed ''download failed...''])"
  by (simp add: day_rows_def demo_read_day_2 io_bind_Inr)

lemma demo_period:
  "download_period demo_env symbol ''2024-01-01'' ''2024-01-03'' ''>IIIIII'' =
     (Inr demo_period_rows,
      [Requested (url symbol (demo_day 1)), Requested (url symbol (demo_day 2)),
       Printed ''download failed...''])"
proof -
  have u: "[738886..738888 - 1] = [738886, 738887::int]" by (simp add: upto_rec1)
  show ?thesis
    unfolding download_period_days [OF demo_strptime] demo_toordinal u
    by (simp add: demo_day_of_ordinal demo_day_rows_1 demo_day_rows_2 io_bind_Inr)
qed

lemma unordered_read_day_1:
  "read_day unordered_env symbol (demo_day 1) =
     (Inr (Data (drop 24 demo_candles @ take 24 demo_candles)), [Requested (url symbol (demo_day 1))])"
  by (simp add: read_day_def unordered_env_def demo_get_day format_0d_2_small)

lemma unordered_decode_normalize:
  "bind_e (bi5_to_df unordered_env (drop 24 demo_candles @ take 24 demo_candles) ''>IIIIII'')
     (\<lambda>df. normalize_df df (demo_day 1)) = Inr (rev demo_period_rows)"
  by code_simp

lemma unordered_day_rows_1:
  "day_rows unordered_env symbol ''>IIIIII'' (demo_day 1) =
     (Inr (rev demo_period_rows), [Requested (url symbol (demo_day 1))])"
proof -
  have "io_bind (io_pure (bi5_to_df unordered_env (drop 24 demo_candles @ take 24 demo_candles) ''>IIIIII''))
          (\<lambda>df. io_pure (normalize_df df (demo_day 1))) = (Inr (rev demo_period_rows), [])"
    by (subst io_bind_pure_pure) (simp add: unordered_decode_normalize io_pure_def)
  then show ?thesis by (simp add: day_rows_def unordered_read_day_1 io_bind_Inr)
qed

lemma demo_strptime_2: "strptime ''2024-01-02'' = Inr (demo_day 2)"
  by code_simp

lemma demo_toordinal_2: "toordinal (demo_day 2) = 738887"
  by code_simp

lemma unordered_period:
  "download_period unordered_env symbol ''2024-01-01'' ''2024-01-02'' ''>IIIIII'' =
     (Inr (rev demo_period_rows), [Requested (url symbol (demo_day 1))])"
proof -
  have u: "[738886..738887 - 1] = [738886::int]" by (simp add: upto_rec1)
  show ?thesis
    unfolding download_period_days [OF demo_strptime(1) demo_strptime_2] demo_toordinal
      demo_toordinal_2 u
    by (simp add: demo_day_of_ordinal unordered_day_rows_1 io_bind_Inr)
qed

lemma demo_period_timestamps:
  "map (\<lambda>r. timestamp (time_col r)) demo_period_rows = [63839750460, 63839750520]"
  by code_simp

lemma demo_files_ordered:
  "list_all (day_file_ordered demo_env ''EURUSD'' ''>IIIIII'') [738886, 738887]"
proof -
  have "(case bi5_to_df demo_env demo_candles ''>IIIIII'' of
           Inr df \<Rightarrow> time_ordered df | Inl e \<Rightarrow> True)"
    by code_simp
  then show ?thesis
    by (simp add: day_file_ordered_def demo_day_of_ordinal demo_read_day_1 demo_read_day_2)
qed

section \<open>The order of the rows of a period\<close>

lemma day_of_ordinal_midnight:
  "hour (day_of_ordinal n) = 0" "minute (day_of_ordinal n) = 0" "second (day_of_ordinal n) = 0"
  by (simp_all add: day_of_ordinal_def datetime_of_timestamp_def split: prod.splits)

lemma timestamp_day_of_ordinal: "timestamp (day_of_ordinal n) = n * 86400"
  by (simp add: day_of_ordinal_def timestamp_datetime_of_timestamp)

lemma normalize_df_day:
  assumes "1 \<le> n" and "n \<le> MAXORDINAL" and "normalize_df df (day_of_ordinal n) = Inr block"
  shows "map (\<lambda>r. timestamp (time_col r)) block = map (\<lambda>r. n * 86400 + time_col r) df"
proof -
  have "normalize_df df (day_of_ordinal n) =
     (if list_all (\<lambda>r. in_datetime_range (timestamp (day_of_ordinal n) + time_col r)) df
      then Inr (map (\<lambda>r. scaled (datetime_of_timestamp (timestamp (day_of_ordinal n) + time_col r)) r) df)
      else Inl OverflowError)"
    using assms(1,2)
    by (intro normalize_df_bounds) (simp_all add: toordinal_day_of_ordinal day_of_ordinal_midnight)
  with assms(3) show ?thesis
    by (auto simp: scaled_def timestamp_datetime_of_timestamp timestamp_day_of_ordinal
        split: if_splits)
qed

lemma sorted_shift:
  fixes xs :: "int list"
  assumes "sorted xs"
  shows "sorted (map (\<lambda>x. c + x) xs)"
  using assms by (induction xs) auto

lemma day_rows_ordered:
  assumes "1 \<le> n" and "n \<le> MAXORDINAL"
    and "fst (day_rows E symbol fmt (day_of_ordinal n)) = Inr block"
    and "day_file_ordered E symbol fmt n"
  shows "sorted (map (\<lambda>r. timestamp (time_col r)) block) \<and>
         list_all (\<lambda>r. n * 86400 \<le> timestamp (time_col r) \<and> timestamp (time_col r) < (n + 1) * 86400) block"
proof (cases "fst (read_day E symbol (day_of_ordinal n))")
  case (Inl e)
  with assms(3) show ?thesis
    by (auto simp: day_rows_def io_bind_def split: prod.splits sum.splits)
next
  case (Inr raw_day)
  show ?thesis
  proof (cases raw_day)
    case Minus_One
    with Inr assms(3) have "block = []"
      by (auto simp: day_rows_def io_bind_def split: prod.splits sum.splits)
    then show ?thesis by simp
  next
    case (Data raw)
    with Inr assms(3) obtain df where df: "bi5_to_df E raw fmt = Inr df"
      and nb: "normalize_df df (day_of_ordinal n) = Inr block"
      by (auto simp: day_rows_def io_bind_def io_pure_def split: prod.splits sum.splits)
    from assms(4) Inr Data df have o: "time_ordered df"
      by (simp add: day_file_ordered_def)
    note ts = normalize_df_day [OF assms(1,2) nb]
    from o have "sorted (map time_col df)" by (simp add: time_ordered_def)
    then have "sorted (map (\<lambda>x. n * 86400 + x) (map time_col df))"
      by (rule sorted_shift)
    then have s: "sorted (map (\<lambda>r. timestamp (time_col r)) block)"
      unfolding ts by (simp add: comp_def)
    from o have b: "\<forall>r \<in> set df. 0 \<le> time_col r \<and> time_col r < 86400"
      by (simp add: time_ordered_def list_all_iff)
    have "\<forall>v \<in> set (map (\<lambda>r. timestamp (time_col r)) block). n * 86400 \<le> v \<and> v < (n + 1) * 86400"
      unfolding ts using b by (auto simp: algebra_simps)
    then have "list_all (\<lambda>r. n * 86400 \<le> timestamp (time_col r) \<and> timestamp (time_col r) < (n + 1) * 86400) block"
      by (simp add: list_all_iff)
    with s show ?thesis by simp
  qed
qed

lemma sorted_blocks:
  fixes f :: "'a \<Rightarrow> int" and ns :: "int list"
  assumes "length ns = length blocks" and "sorted_wrt (<) ns"
    and "\<And>n b. (n, b) \<in> set (zip ns blocks) \<Longrightarrow>
           sorted (map f b) \<and> list_all (\<lambda>r. n * 86400 \<le> f r \<and> f r < (n + 1) * 86400) b"
  shows "sorted (map f (concat blocks))"
  using assms
proof (induction ns blocks rule: list_induct2)
  case Nil
  then show ?case by simp
next
  case (Cons n ns b blocks)
  have hd: "sorted (map f b)" and bd: "\<forall>r \<in> set b. f r < (n + 1) * 86400"
    using Cons.prems(2) [of n b] by (simp_all add: list_all_iff)
  have tl: "sorted (map f (concat blocks))"
  proof (rule Cons.IH)
    show "sorted_wrt (<) ns" using Cons.prems(1) by simp
    show "sorted (map f b') \<and> list_all (\<lambda>r. n' * 86400 \<le> f r \<and> f r < (n' + 1) * 86400) b'"
      if "(n', b') \<in> set (zip ns blocks)" for n' b'
      using that Cons.prems(2) [of n' b'] by simp
  qed
  have later: "(n + 1) * 86400 \<le> f y" if "y \<in> set (concat blocks)" for y
  proof -
    from that obtain b' where b': "b' \<in> set blocks" "y \<in> set b'" by auto
    from b'(1) Cons.hyps obtain n' where z: "(n', b') \<in> set (zip ns blocks)"
      by (metis in_set_impl_in_set_zip2)
    then have "n' \<in> set ns" by (rule set_zip_leftD)
    with Cons.prems(1) have "n < n'" by simp
    then have "(n + 1) * 86400 \<le> n' * 86400" by simp
    moreover from Cons.prems(2) [of n' b'] z b'(2) have "n' * 86400 \<le> f y"
      by (simp add: list_all_iff)
    ultimately show ?thesis by simp
  qed
  have "\<forall>x \<in> set b. \<forall>y \<in> set (concat blocks). f x \<le> f y"
  proof (intro ballI)
    fix x y assume "x \<in> set b" and "y \<in> set (concat blocks)"
    with bd later [of y] show "f x \<le> f y" by fastforce
  qed
  with hd tl show ?case by (simp add: sorted_append)
qed

lemma download_period_ordered:
  assumes "strptime start_day = Inr sd" and "strptime end_day = Inr ed"
    and "list_all (day_file_ordered E symbol fmt) [toordinal sd..toordinal ed - 1]"
    and "fst (download_period E symbol start_day end_day fmt) = Inr rows"
  shows "sorted (map (\<lambda>r. timestamp (time_col r)) rows)"
proof -
  define L where "L = [toordinal sd..toordinal ed - 1]"
  note a = strptime_valid [OF assms(1)] and b = strptime_valid [OF assms(2)]
  note oa = valid_datetime_ordinal [OF a(1)] and ob = valid_datetime_ordinal [OF b(1)]
  from assms(4) have "fst (io_concat (map (\<lambda>n. day_rows E symbol fmt (day_of_ordinal n)) L)) = Inr rows"
    unfolding L_def by (simp add: download_period_days [OF assms(1,2)])
  from io_concat_Inr [OF this] obtain blocks
    where blocks: "map (\<lambda>n. fst (day_rows E symbol fmt (day_of_ordinal n))) L = map Inr blocks"
      and rows: "rows = concat blocks"
    by (auto simp: comp_def)
  from blocks have len: "length L = length blocks" by (metis length_map)
  have each: "sorted (map (\<lambda>r. timestamp (time_col r)) b) \<and>
      list_all (\<lambda>r. n * 86400 \<le> timestamp (time_col r) \<and> timestamp (time_col r) < (n + 1) * 86400) b"
    if "(n, b) \<in> set (zip L blocks)" for n b
  proof -
    from that obtain i where i: "i < length L" "L ! i = n" "blocks ! i = b"
      using len by (auto simp: set_zip)
    from blocks i len have "fst (day_rows E symbol fmt (day_of_ordinal n)) = Inr b"
      by (metis nth_map)
    moreover from i have "n \<in> set L" by auto
    then have "toordinal sd \<le> n" "n \<le> toordinal ed - 1" by (simp_all add: L_def)
    with oa ob have "1 \<le> n" "n \<le> MAXORDINAL" by simp_all
    moreover from \<open>n \<in> set L\<close> assms(3) have "day_file_ordered E symbol fmt n"
      by (simp add: L_def list_all_iff)
    ultimately show ?thesis by (intro day_rows_ordered)
  qed
  have "sorted_wrt (<) L" by (simp add: L_def)
  from sorted_blocks [OF len this each] rows show ?thesis by simp
qed

text \<open>
  C6. The claim concludes that the rows of the table are in ascending order of time. The
  days are processed in ascending order, but the rows of a day are in the order of the
  records of the day's file, which nothing checks: on a server whose file for 2024-01-01
  lists the record at offset 120 before the record at offset 60, the period from
  2024-01-01 to 2024-01-02 returns the row of 00:02:00 before the row of 00:01:00.
\<close>

theorem download_period_days_in_order_counterexample:
  "strptime ''2024-01-01'' = Inr (demo_day 1) \<and> strptime ''2024-01-02'' = Inr (demo_day 2) \<and>
   toordinal (demo_day 1) \<le> toordinal (demo_day 2) \<and>
   fst (download_period unordered_env ''EURUSD'' ''2024-01-01'' ''2024-01-02'' ''>IIIIII'') =
     Inr (rev demo_period_rows) \<and>
   map (\<lambda>r. timestamp (time_col r)) (rev demo_period_rows) = [63839750520, 63839750460] \<and>
   \<not> sorted (map (\<lambda>r. timestamp (time_col r)) (rev demo_period_rows))"
proof -
  have le: "toordinal (demo_day 1) \<le> toordinal (demo_day 2)"
    by (simp add: demo_toordinal demo_toordinal_2)
  have t: "map (\<lambda>r. timestamp (time_col r)) (rev demo_period_rows) = [63839750520, 63839750460]"
    using demo_period_timestamps by (simp add: rev_map [symmetric])
  then have n: "\<not> sorted (map (\<lambda>r. timestamp (time_col r)) (rev demo_period_rows))" by simp
  have p: "fst (download_period unordered_env ''EURUSD'' ''2024-01-01'' ''2024-01-02'' ''>IIIIII'') =
     Inr (rev demo_period_rows)"
    by (simp add: unordered_period)
  from demo_strptime(1) demo_strptime_2 le p t n show ?thesis by (intro conjI)
qed

text \<open>
  C6, as amended. When both strings parse and the start is not after the end,
  \<^verbatim>\<open>download_period\<close> is the run, one day after the other, of the days whose
  ordinals go from that of the start day up to that of the end day minus one, in
  ascending order: each is fetched, decoded and normalised in turn, an exception ends the
  run, and a table that is returned is the concatenation of the days' rows in that order.
  The day processed for the ordinal \<open>n\<close> is midnight of the calendar day with that
  ordinal, and no day is processed when the end is not after the start. The rows of a
  returned table are in ascending order of time whenever every day's file that is found
  and decodes lists its records in ascending order of offset, with every offset from 0
  up to, but not including, 86400 seconds.
\<close>

theorem download_period_days_in_order:
  assumes "strptime start_day = Inr sd" and "strptime end_day = Inr ed"
    and "toordinal sd \<le> toordinal ed"
  shows "download_period E symbol start_day end_day fmt =
           io_concat (map (\<lambda>n. day_rows E symbol fmt (day_of_ordinal n))
             [toordinal sd..toordinal ed - 1]) \<and>
         map toordinal (map day_of_ordinal [toordinal sd..toordinal ed - 1]) =
           [toordinal sd..toordinal ed - 1] \<and>
         length [toordinal sd..toordinal ed - 1] = nat (toordinal ed - toordinal sd) \<and>
         (fst (download_period E symbol start_day end_day fmt) = Inr rows \<longrightarrow>
            (\<exists>blocks.
               map (\<lambda>n. fst (day_rows E symbol fmt (day_of_ordinal n)))
                 [toordinal sd..toordinal ed - 1] = map Inr blocks \<and>
               rows = concat blocks)) \<and>
         (list_all (day_file_ordered E symbol fmt) [toordinal sd..toordinal ed - 1] \<and>
          fst (download_period E symbol start_day end_day fmt) = Inr rows \<longrightarrow>
            sorted (map (\<lambda>r. timestamp (time_col r)) rows))"
proof -
  note eq = download_period_days [OF assms(1,2), of E symbol fmt]
  have "\<exists>blocks.
      map (\<lambda>n. fst (day_rows E symbol fmt (day_of_ordinal n)))
        [toordinal sd..toordinal ed - 1] = map Inr blocks \<and> rows = concat blocks"
    if "fst (download_period E symbol start_day end_day fmt) = Inr rows"
  proof -
    from that eq have "fst (io_concat (map (\<lambda>n. day_rows E symbol fmt (day_of_ordinal n))
             [toordinal sd..toordinal ed - 1])) = Inr rows"
      by simp
    from io_concat_Inr [OF this] show ?thesis by (simp add: comp_def)
  qed
  moreover have "map toordinal (map day_of_ordinal [toordinal sd..toordinal ed - 1]) =
      [toordinal sd..toordinal ed - 1]"
    by (simp add: comp_def toordinal_day_of_ordinal)
  moreover have "length [toordinal sd..toordinal ed - 1] = nat (toordinal ed - toordinal sd)"
    by simp
  moreover have "sorted (map (\<lambda>r. timestamp (time_col r)) rows)"
    if "list_all (day_file_ordered E symbol fmt) [toordinal sd..toordinal ed - 1]"
      and "fst (download_period E symbol start_day end_day fmt) = Inr rows"
    using assms(1,2) that by (rule download_period_ordered)
  ultimately show ?thesis using eq by blast
qed

text \<open>
  From 2024-01-01 to 2024-01-03 the days 738886 and 738887 are processed; the file of the
  first lists its two records in ascending order and the second is not found; the table
  has the rows of 00:01:00 and 00:02:00 in this order.
\<close>

theorem download_period_days_in_order_witness:
  "strptime ''2024-01-01'' = Inr (demo_day 1) \<and> strptime ''2024-01-03'' = Inr (demo_day 3) \<and>
   toordinal (demo_day 1) \<le> toordinal (demo_day 3) \<and>
   list_all (day_file_ordered demo_env ''EURUSD'' ''>IIIIII'') [738886, 738887] \<and>
   download_period demo_env ''EURUSD'' ''2024-01-01'' ''2024-01-03'' ''>IIIIII'' =
     io_concat (map (\<lambda>n. day_rows demo_env ''EURUSD'' ''>IIIIII'' (day_of_ordinal n))
       [738886, 738887]) \<and>
   fst (download_period demo_env ''EURUSD'' ''2024-01-01'' ''2024-01-03'' ''>IIIIII'') =
     Inr demo_period_rows \<and>
   sorted (map (\<lambda>r. timestamp (time_col r)) demo_period_rows)"
proof -
  have le: "toordinal (demo_day 1) \<le> toordinal (demo_day 3)" by (simp add: demo_toordinal)
  have u: "[738886..738888 - 1] = [738886, 738887::int]" by (simp add: upto_rec1)
  have p: "fst (download_period demo_env ''EURUSD'' ''2024-01-01'' ''2024-01-03'' ''>IIIIII'') =
     Inr demo_period_rows"
    by (simp add: demo_period)
  note t = download_period_days_in_order [OF demo_strptime le, of demo_env "''EURUSD''" "''>IIIIII''"
      demo_period_rows, unfolded demo_toordinal u]
  from t have a: "download_period demo_env ''EURUSD'' ''2024-01-01'' ''2024-01-03'' ''>IIIIII'' =
     io_concat (map (\<lambda>n. day_rows demo_env ''EURUSD'' ''>IIIIII'' (day_of_ordinal n))
       [738886, 738887])"
    by (rule conjunct1)
  from t demo_files_ordered p have s: "sorted (map (\<lambda>r. timestamp (time_col r)) demo_period_rows)"
    by blast
  from demo_strptime le demo_files_ordered a p s show ?thesis by (intro conjI)
qed

section \<open>The blocks of download_data\<close>













section \<open>Lists of unequal length in download_data\<close>





section \<open>The date strings that strptime accepts\<close>

lemma re_m_mem:
  assumes "(m, r) \<in> set (re_m s)"
  shows "s = m @ r \<and> month_text m"
  using assms
  by (auto simp: re_m_def alt1_def alt2_def month_text_def split: list.splits if_splits)

lemma re_d_mem:
  assumes "(d, r) \<in> set (re_d s)"
  shows "s = d @ r \<and> day_text d"
  using assms
  by (auto simp: re_d_def alt1_def alt2_def day_text_def split: list.splits if_splits)

lemma format_regex_match_concat:
  "format_regex_match s =
     concat (map (\<lambda>(Y, r1). concat (map (\<lambda>r2.
       concat (map (\<lambda>(m, r3). concat (map (\<lambda>r4.
         map (\<lambda>(d, r5). (Y, m, d, r5)) (re_d r4)) (lit (CHR ''-'') r3))) (re_m r2)))
       (lit (CHR ''-'') r1))) (re_Y s))"
  unfolding format_regex_match_def
  by (simp add: case_prod_unfold map_concat comp_def concat_map_singleton)

lemma format_regex_match_mem:
  assumes "(Y, m, d, r) \<in> set (format_regex_match s)"
  shows "\<exists>r1 r2 r3 r4. (Y, r1) \<in> set (re_Y s) \<and> r2 \<in> set (lit (CHR ''-'') r1) \<and>
           (m, r3) \<in> set (re_m r2) \<and> r4 \<in> set (lit (CHR ''-'') r3) \<and> (d, r) \<in> set (re_d r4)"
  using assms unfolding format_regex_match_concat by fastforce

lemma re_Y_mem:
  assumes "(Y, r) \<in> set (re_Y s)"
  shows "s = Y @ r \<and> length Y = 4 \<and> list_all is_digit Y"
  using assms by (auto simp: re_Y_def split: list.splits if_splits)

lemma lit_mem: "r \<in> set (lit c s) \<Longrightarrow> s = c # r"
  by (auto simp: lit_def split: list.splits if_splits)

lemma re_Y_digits:
  assumes "length Y = 4" and "list_all is_digit Y"
  shows "re_Y (Y @ r) = [(Y, r)]"
proof -
  from assms(1) obtain a b c d where "Y = [a, b, c, d]"
    by (auto simp: length_Suc_conv eval_nat_numeral)
  with assms(2) show ?thesis by (simp add: re_Y_def)
qed

lemma lit_hyphen: "lit c (c # r) = [r]"
  by (simp add: lit_def)

lemma not_range_hyphen:
  "\<not> in_range (CHR ''0'') (CHR ''2'') (CHR ''-'')" "\<not> in_range (CHR ''1'') (CHR ''9'') (CHR ''-'')"
  "\<not> in_range (CHR ''0'') (CHR ''1'') (CHR ''-'')" "\<not> in_range (CHR ''1'') (CHR ''2'') (CHR ''-'')"
  "\<not> is_digit (CHR ''-'')" "\<not> in_range (CHR ''1'') (CHR ''9'') (CHR ''0'')"
  "in_range (CHR ''1'') (CHR ''9'') (CHR ''1'')" "in_range (CHR ''1'') (CHR ''9'') (CHR ''3'')"
  "\<not> in_range (CHR ''1'') (CHR ''2'') (CHR ''3'')" "\<not> in_range (CHR ''1'') (CHR ''2'') (CHR ''0'')"
  "\<not> in_range (CHR ''1'') (CHR ''9'') (CHR '' '')" "\<not> in_range (CHR ''1'') (CHR ''2'') (CHR '' '')"
  by (simp_all add: in_range_def is_digit_def)

lemma range_1_2_in_1_9: "in_range (CHR ''1'') (CHR ''2'') a \<Longrightarrow> in_range (CHR ''1'') (CHR ''9'') a"
  by (simp add: in_range_def)

lemma re_m_text:
  assumes "month_text M"
  shows "concat (map (\<lambda>(m, r3). concat (map (h m) (lit (CHR ''-'') r3))) (re_m (M @ CHR ''-'' # r))) = h M r"
  using assms
  by (auto simp: month_text_def re_m_def alt1_def alt2_def lit_def not_range_hyphen split: list.splits)

lemma re_d_text:
  assumes "day_text D"
  shows "\<exists>rest. re_d D = (D, []) # rest"
  using assms
  by (auto simp: day_text_def re_d_def alt1_def alt2_def not_range_hyphen range_1_2_in_1_9 split: list.splits)

lemma month_text_no_hyphen: "month_text M \<Longrightarrow> CHR ''-'' \<notin> set M"
  by (auto simp: month_text_def not_range_hyphen split: list.splits)

lemma day_text_no_hyphen: "day_text D \<Longrightarrow> CHR ''-'' \<notin> set D"
  by (auto simp: day_text_def not_range_hyphen split: list.splits)

lemma digits_no_hyphen: "list_all is_digit Y \<Longrightarrow> CHR ''-'' \<notin> set Y"
  using not_range_hyphen(5) by (auto simp: list_all_iff)

lemma char_eq_iff: "(a = c) = ((of_char a :: nat) = of_char c)"
  by simp

lemma two_digit_month:
  assumes "is_digit a" and "is_digit b"
  shows "month_text [a, b] = (1 \<le> int_of_str [a, b] \<and> int_of_str [a, b] \<le> 12)"
proof -
  define na :: nat where "na = of_char a"
  define nb :: nat where "nb = of_char b"
  from assms have r: "48 \<le> na" "na \<le> 57" "48 \<le> nb" "nb \<le> 57"
    by (simp_all add: is_digit_def in_range_def na_def nb_def)
  have sp: "a \<noteq> CHR '' ''" using r(1) by (auto simp: na_def)
  have v: "int_of_str [a, b] = (int na - 48) * 10 + (int nb - 48)"
    using sp by (simp add: int_of_str_def digit_val_def na_def nb_def)
  have m: "month_text [a, b] = (na = 49 \<and> 48 \<le> nb \<and> nb \<le> 50 \<or> na = 48 \<and> 49 \<le> nb \<and> nb \<le> 57)"
    by (simp add: month_text_def in_range_def char_eq_iff [of a] na_def nb_def)
  show ?thesis unfolding v m using r by arith
qed

lemma two_digit_day:
  assumes "is_digit a" and "is_digit b"
  shows "day_text [a, b] = (1 \<le> int_of_str [a, b] \<and> int_of_str [a, b] \<le> 31)"
proof -
  define na :: nat where "na = of_char a"
  define nb :: nat where "nb = of_char b"
  from assms have r: "48 \<le> na" "na \<le> 57" "48 \<le> nb" "nb \<le> 57"
    by (simp_all add: is_digit_def in_range_def na_def nb_def)
  have sp: "a \<noteq> CHR '' ''" using r(1) by (auto simp: na_def)
  have v: "int_of_str [a, b] = (int na - 48) * 10 + (int nb - 48)"
    using sp by (simp add: int_of_str_def digit_val_def na_def nb_def)
  have m: "day_text [a, b] =
      (na = 51 \<and> 48 \<le> nb \<and> nb \<le> 49 \<or> 49 \<le> na \<and> na \<le> 50 \<and> 48 \<le> nb \<and> nb \<le> 57 \<or>
       na = 48 \<and> 49 \<le> nb \<and> nb \<le> 57 \<or> na = 32 \<and> 49 \<le> nb \<and> nb \<le> 57)"
    by (simp add: day_text_def is_digit_def in_range_def char_eq_iff [of a] na_def nb_def)
  show ?thesis unfolding v m using r by arith
qed

lemma split_on_join:
  assumes "split_on c s = w # ws"
  shows "s = w @ concat (map (\<lambda>x. c # x) ws)"
  using assms
proof (induction s arbitrary: w ws)
  case Nil
  then show ?case by simp
next
  case (Cons x s)
  obtain v vs where v: "split_on c s = v # vs"
    using split_on_nonempty [of c s] by (cases "split_on c s") auto
  note IH = Cons.IH [OF v]
  show ?case
  proof (cases "x = c")
    case True
    with Cons.prems v have "w = []" and "ws = v # vs" by simp_all
    then have "w @ concat (map (\<lambda>x. c # x) ws) = c # (v @ concat (map (\<lambda>x. c # x) vs))" by simp
    with IH True show ?thesis by simp
  next
    case False
    with Cons.prems v have "w = x # v" and "ws = vs" by simp_all
    then have "w @ concat (map (\<lambda>x. c # x) ws) = x # (v @ concat (map (\<lambda>x. c # x) vs))" by simp
    with IH show ?thesis by simp
  qed
qed

lemma split_on_three:
  assumes "c \<notin> set Y" and "c \<notin> set M" and "c \<notin> set D"
  shows "split_on c (Y @ c # M @ c # D) = [Y, M, D]"
  by (simp only: split_on_append split_on_free [OF assms(1)] split_on_free [OF assms(2)]
      split_on_free [OF assms(3)]) simp

lemma loose_ymd_join:
  assumes "length Y = 4" and "list_all is_digit Y" and "month_text M" and "day_text D"
  shows "loose_ymd (Y @ CHR ''-'' # M @ CHR ''-'' # D) = Some (Y, M, D)"
  using assms
    split_on_three [OF digits_no_hyphen [OF assms(2)] month_text_no_hyphen [OF assms(3)]
      day_text_no_hyphen [OF assms(4)]]
  by (simp add: loose_ymd_def)

lemma loose_ymd_Some:
  assumes "loose_ymd s = Some (Y, M, D)"
  shows "s = Y @ CHR ''-'' # M @ CHR ''-'' # D" and "length Y = 4" and "list_all is_digit Y"
    and "month_text M" and "day_text D"
proof -
  from assms have sp: "split_on (CHR ''-'') s = [Y, M, D]"
    and f: "length Y = 4 \<and> list_all is_digit Y \<and> month_text M \<and> day_text D"
    by (auto simp: loose_ymd_def split: list.splits if_splits)
  from split_on_join [OF sp] show "s = Y @ CHR ''-'' # M @ CHR ''-'' # D" by simp
  from f show "length Y = 4" "list_all is_digit Y" "month_text M" "day_text D"
    by simp_all
qed

lemma regex_head_loose:
  assumes "format_regex_match s = (Y, m, d, []) # rest"
  shows "loose_ymd s = Some (Y, m, d)"
proof -
  from assms have "(Y, m, d, []) \<in> set (format_regex_match s)" by simp
  from format_regex_match_mem [OF this] obtain r1 r2 r3 r4
    where a: "(Y, r1) \<in> set (re_Y s)" "r2 \<in> set (lit (CHR ''-'') r1)"
      "(m, r3) \<in> set (re_m r2)" "r4 \<in> set (lit (CHR ''-'') r3)" "(d, []) \<in> set (re_d r4)"
    by blast
  note y = re_Y_mem [OF a(1)] and l1 = lit_mem [OF a(2)] and mm = re_m_mem [OF a(3)]
    and l2 = lit_mem [OF a(4)] and dd = re_d_mem [OF a(5)]
  from y l1 mm l2 dd have "s = Y @ CHR ''-'' # m @ CHR ''-'' # d" by simp
  with loose_ymd_join [of Y m d] y mm dd show ?thesis by simp
qed

lemma loose_regex_head:
  assumes "loose_ymd s = Some (Y, M, D)"
  shows "\<exists>rest. format_regex_match s = (Y, M, D, []) # rest"
proof -
  note a = loose_ymd_Some [OF assms]
  from re_d_text [OF a(5)] obtain rest where d: "re_d D = (D, []) # rest" by blast
  have "format_regex_match s = map (\<lambda>(d, r5). (Y, M, d, r5)) (re_d D)"
    unfolding format_regex_match_concat a(1) re_Y_digits [OF a(2,3)]
    by (simp add: lit_hyphen re_m_text [OF a(4)])
  with d show ?thesis by simp
qed

lemma strptime_loose:
  "strptime s =
     (case loose_ymd s of
        None \<Rightarrow> Inl ValueError
      | Some (Y, M, D) \<Rightarrow>
          if check_date_fields (int_of_str Y) (int_of_str M) (int_of_str D)
          then Inr \<lparr>year = int_of_str Y, month = int_of_str M, day = int_of_str D,
                    hour = 0, minute = 0, second = 0\<rparr>
          else Inl ValueError)"
proof (cases "loose_ymd s")
  case None
  have "strptime s = Inl ValueError"
  proof (cases "format_regex_match s")
    case Nil
    then show ?thesis by (simp add: strptime_def)
  next
    case (Cons p rest)
    obtain Y m d r where p: "p = (Y, m, d, r)" by (cases p)
    show ?thesis
    proof (cases "r = []")
      case True
      with Cons p regex_head_loose [of s Y m d rest] None show ?thesis by simp
    next
      case False
      with Cons p show ?thesis by (simp add: strptime_def)
    qed
  qed
  with None show ?thesis by simp
next
  case (Some t)
  obtain Y M D where t: "t = (Y, M, D)" by (cases t)
  from loose_regex_head [of s Y M D] Some t obtain rest
    where "format_regex_match s = (Y, M, D, []) # rest" by auto
  with Some t show ?thesis by (simp add: strptime_def Let_def)
qed

lemma days_in_month_le:
  assumes "1 \<le> m" and "m \<le> 12"
  shows "days_in_month y m \<le> 31"
proof -
  from assms have "m = 1 \<or> m = 2 \<or> m = 3 \<or> m = 4 \<or> m = 5 \<or> m = 6 \<or> m = 7 \<or> m = 8 \<or> m = 9 \<or> m = 10 \<or> m = 11 \<or> m = 12"
    by arith
  then show ?thesis by (auto simp: days_in_month_def DAYS_IN_MONTH_def)
qed

lemma strict_ymd_strptime:
  assumes "strict_ymd s"
  shows "strptime s =
     (if check_date_fields (int_of_str (take 4 s)) (int_of_str (take 2 (drop 5 s)))
           (int_of_str (drop 8 s))
      then Inr \<lparr>year = int_of_str (take 4 s), month = int_of_str (take 2 (drop 5 s)),
                day = int_of_str (drop 8 s), hour = 0, minute = 0, second = 0\<rparr>
      else Inl ValueError)"
proof -
  from assms obtain y1 y2 y3 y4 m1 m2 d1 d2
    where s: "s = [y1, y2, y3, y4] @ CHR ''-'' # [m1, m2] @ CHR ''-'' # [d1, d2]"
      and dg: "is_digit y1" "is_digit y2" "is_digit y3" "is_digit y4"
        "is_digit m1" "is_digit m2" "is_digit d1" "is_digit d2"
    by (auto simp: strict_ymd_def split: list.splits)
  define Y where "Y = [y1, y2, y3, y4]"
  define M where "M = [m1, m2]"
  define D where "D = [d1, d2]"
  have parts: "take 4 s = Y" "take 2 (drop 5 s) = M" "drop 8 s = D"
    by (simp_all add: s Y_def M_def D_def)
  have Y: "length Y = 4" "list_all is_digit Y" using dg by (simp_all add: Y_def)
  have sp: "split_on (CHR ''-'') s = [Y, M, D]"
    unfolding s Y_def [symmetric] M_def [symmetric] D_def [symmetric]
    using digits_no_hyphen [of Y] digits_no_hyphen [of M] digits_no_hyphen [of D] Y dg
    by (intro split_on_three) (simp_all add: M_def D_def)
  show ?thesis
  proof (cases "month_text M \<and> day_text D")
    case True
    with sp Y have "loose_ymd s = Some (Y, M, D)" by (simp add: loose_ymd_def)
    then show ?thesis unfolding parts by (simp add: strptime_loose)
  next
    case False
    with sp have "loose_ymd s = None" by (simp add: loose_ymd_def)
    then have e: "strptime s = Inl ValueError" by (simp add: strptime_loose)
    have "\<not> check_date_fields (int_of_str Y) (int_of_str M) (int_of_str D)"
    proof
      assume c: "check_date_fields (int_of_str Y) (int_of_str M) (int_of_str D)"
      then have m: "1 \<le> int_of_str M" "int_of_str M \<le> 12"
        and d: "1 \<le> int_of_str D" "int_of_str D \<le> days_in_month (int_of_str Y) (int_of_str M)"
        by (simp_all add: check_date_fields_def)
      from days_in_month_le [OF m, of "int_of_str Y"] d have "int_of_str D \<le> 31" by simp
      with m d(1) have "month_text M \<and> day_text D"
        unfolding M_def D_def using two_digit_month [OF dg(5,6)] two_digit_day [OF dg(7,8)] by simp
      with False show False by simp
    qed
    with e show ?thesis unfolding parts by simp
  qed
qed

lemma download_period_parse_error:
  assumes "strptime start_day = Inl e \<or> strptime end_day = Inl e'"
  shows "download_period E symbol start_day end_day fmt = (Inl ValueError, [])"
proof (cases "strptime start_day")
  case (Inl a)
  with strptime_error [OF Inl] show ?thesis
    by (simp add: download_period_def io_bind_pure_Inl)
next
  case (Inr sd)
  with assms have "strptime end_day = Inl e'" by simp
  with strptime_error [OF this] Inr show ?thesis
    by (simp add: download_period_def io_bind_pure_Inl io_bind_pure_Inr)
qed

lemma download_period_parsed:
  assumes "strptime start_day = Inr sd" and "strptime end_day = Inr ed"
  shows "download_period E symbol start_day end_day fmt =
           period_loop E symbol fmt sd [0..<nat (toordinal ed - toordinal sd)] []"
  by (simp add: download_period_def assms io_bind_pure_Inr datetime_sub_midnight [OF assms])

text \<open>
  C9. The claim is that every string that is not of the strict form YYYY-MM-DD makes
  \<^verbatim>\<open>download_period\<close> fail with a parse error, and that every string of that form
  parses. The first part fails on the code: \<^verbatim>\<open>strptime\<close> also accepts a month or a
  day of one digit, so \<^verbatim>\<open>2024-3-5\<close> parses and the day is fetched. The second part
  holds only for the strings that name a day of the calendar: \<^verbatim>\<open>2024-02-30\<close> has the
  strict form and is refused.
\<close>

theorem download_period_parse_counterexample:
  "\<not> strict_ymd ''2024-3-5'' \<and>
   download_period demo_env ''EURUSD'' ''2024-3-5'' ''2024-3-6'' ''>IIIIII'' =
     (Inr [],
      [Requested ''https://datafeed.dukascopy.com/datafeed/EURUSD/2024/02/05/BID_candles_min_1.bi5'',
       Printed ''download failed...'']) \<and>
   strict_ymd ''2024-02-30'' \<and>
   download_period demo_env ''EURUSD'' ''2024-02-30'' ''2024-03-01'' ''>IIIIII'' = (Inl ValueError, [])"
  by code_simp

text \<open>
  C9, as amended. When \<^verbatim>\<open>strptime\<close> refuses the start or the end string,
  \<^verbatim>\<open>download_period\<close> raises \<^verbatim>\<open>ValueError\<close> with no event, so before any request,
  and returns no table; when it accepts both, the loop over the days starts. It accepts
  exactly the strings of a four-digit year, a month text and a day text around two
  hyphens whose numbers pass the check of the \<^verbatim>\<open>date\<close> constructor, and the result
  is midnight of that day. A string of the strict form is accepted exactly when its
  numbers pass that check.
\<close>

theorem download_period_parse:
  "(strptime start_day = Inl e \<or> strptime end_day = Inl e' \<longrightarrow>
      download_period E symbol start_day end_day fmt = (Inl ValueError, [])) \<and>
   (strptime start_day = Inr sd \<and> strptime end_day = Inr ed \<longrightarrow>
      download_period E symbol start_day end_day fmt =
        period_loop E symbol fmt sd [0..<nat (toordinal ed - toordinal sd)] []) \<and>
   strptime s =
     (case loose_ymd s of
        None \<Rightarrow> Inl ValueError
      | Some (Y, M, D) \<Rightarrow>
          if check_date_fields (int_of_str Y) (int_of_str M) (int_of_str D)
          then Inr \<lparr>year = int_of_str Y, month = int_of_str M, day = int_of_str D,
                    hour = 0, minute = 0, second = 0\<rparr>
          else Inl ValueError) \<and>
   (strict_ymd s \<longrightarrow>
      strptime s =
        (if check_date_fields (int_of_str (take 4 s)) (int_of_str (take 2 (drop 5 s)))
              (int_of_str (drop 8 s))
         then Inr \<lparr>year = int_of_str (take 4 s), month = int_of_str (take 2 (drop 5 s)),
                   day = int_of_str (drop 8 s), hour = 0, minute = 0, second = 0\<rparr>
         else Inl ValueError))"
  using download_period_parse_error [of start_day e end_day e' E symbol fmt]
    download_period_parsed [of start_day sd end_day ed E symbol fmt]
    strptime_loose [of s] strict_ymd_strptime [of s]
  by blast

text \<open>
  A string with slashes is refused and nothing is requested; 2024-01-01 has the strict
  form and is accepted.
\<close>

theorem download_period_parse_witness:
  "strptime ''2024/01/01'' = Inl ValueError \<and>
   download_period demo_env ''EURUSD'' ''2024/01/01'' ''2024-01-03'' ''>IIIIII'' = (Inl ValueError, []) \<and>
   strptime ''2024-01-01'' = Inr (demo_day 1) \<and> strptime ''2024-01-03'' = Inr (demo_day 3) \<and>
   download_period demo_env ''EURUSD'' ''2024-01-01'' ''2024-01-03'' ''>IIIIII'' =
     period_loop demo_env ''EURUSD'' ''>IIIIII'' (demo_day 1) [0, 1] [] \<and>
   loose_ymd ''2024-3-5'' = Some (''2024'', ''3'', ''5'') \<and>
   strict_ymd ''2024-01-01''"
proof -
  have e: "strptime ''2024/01/01'' = Inl ValueError" by code_simp
  have l: "loose_ymd ''2024-3-5'' = Some (''2024'', ''3'', ''5'')" by code_simp
  have st: "strict_ymd ''2024-01-01''" by code_simp
  have n: "[0..<nat (toordinal (demo_day 3) - toordinal (demo_day 1))] = [0, 1]"
    by (simp add: demo_toordinal upt_rec)
  note t1 = download_period_parse [of "''2024/01/01''" ValueError "''2024-01-03''" ValueError
      demo_env "''EURUSD''" "''>IIIIII''" "demo_day 1" "demo_day 3" "''2024-01-01''"]
  note t2 = download_period_parse [of "''2024-01-01''" ValueError "''2024-01-03''" ValueError
      demo_env "''EURUSD''" "''>IIIIII''" "demo_day 1" "demo_day 3" "''2024-01-01''"]
  from t1 e have a: "download_period demo_env ''EURUSD'' ''2024/01/01'' ''2024-01-03'' ''>IIIIII'' =
      (Inl ValueError, [])"
    by blast
  from t2 demo_strptime have b: "download_period demo_env ''EURUSD'' ''2024-01-01'' ''2024-01-03'' ''>IIIIII'' =
      period_loop demo_env ''EURUSD'' ''>IIIIII'' (demo_day 1)
        [0..<nat (toordinal (demo_day 3) - toordinal (demo_day 1))] []"
    by blast
  from e a demo_strptime b [unfolded n] l st show ?thesis by (intro conjI)
qed

end
